theory Spec2Isabelle
  imports Complex_Main "HOL-Library.AList" "HOL-Library.Char_ord" "HOL-Library.List_Lexorder"
begin

section \<open>MindMapr: the graph model of \<^verbatim>\<open>main.py\<close>\<close>

text \<open>
  The model follows \<^verbatim>\<open>src/MindMapr/main.py\<close>. Python objects that are shared and mutated
  (\<^verbatim>\<open>Node\<close>) live in an explicit store: a \<^emph>\<open>reference\<close> is the address of a \<^verbatim>\<open>Node\<close> object, and
  the canvas dictionaries, the edges and the selection hold references, as in the source.
  Python dictionaries keep insertion order, so a dictionary is an association list:
  \<^verbatim>\<open>d[k] = v\<close> is \<open>AList.update\<close> (an existing key keeps its place, a new key goes last),
  \<^verbatim>\<open>del d[k]\<close> is \<open>AList.delete\<close>, \<^verbatim>\<open>d.get(k)\<close> is \<open>map_of\<close>.

  Numbers (coordinates, sizes) are Python ints and floats; they are modelled as \<open>real\<close>, so
  rounding is not modelled. What Tk draws (rectangles, texts, lines and their coordinates) is
  not modelled; only the item identifiers that \<^verbatim>\<open>create_rectangle\<close>, \<^verbatim>\<open>create_text\<close> and
  \<^verbatim>\<open>create_line\<close> return are, since hit testing compares them. Tk numbers the items of a canvas
  1, 2, 3, ... so an item identifier is never falsy.
\<close>

type_synonym ref = nat
type_synonym item = nat

text \<open>
  \<^verbatim>\<open>class Node\<close>. \<^verbatim>\<open>connections\<close> is a Python set of edge ids; it is kept as a list without
  repetitions in insertion order, and iteration (\<^verbatim>\<open>list(node.connections)\<close>) follows that order
  (Python leaves the order of a set unspecified).
\<close>

record node =
  node_id :: string
  node_x :: real
  node_y :: real
  node_width :: real
  node_height :: real
  node_text :: string
  node_rect :: item
  node_text_id :: item
  connections :: "string list"

text \<open>\<^verbatim>\<open>class Edge\<close>: the fields \<^verbatim>\<open>a\<close> and \<^verbatim>\<open>b\<close> are references to \<^verbatim>\<open>Node\<close> objects.\<close>

record edge =
  edge_id :: string
  edge_a :: ref
  edge_b :: ref
  edge_line :: item

text \<open>What the canvas has bound to \<^verbatim>\<open><Button-1>\<close>: \<^verbatim>\<open>on_single\<close> or \<^verbatim>\<open>finish_connection\<close>.\<close>

datatype handler = On_single | Finish_connection

text \<open>
  \<^verbatim>\<open>class MindMapCanvas\<close> together with what its methods reach: the store of \<^verbatim>\<open>Node\<close> objects,
  the counters of allocated objects and canvas items, the messages passed to \<^verbatim>\<open>app.log\<close>
  (without the time stamp \<^verbatim>\<open>log\<close> puts in front), and the source of \<^verbatim>\<open>uuid.uuid4()\<close>:
  the \<open>k\<close>-th call returns \<open>uuid_src k\<close>.
\<close>

record canvas =
  heap :: "ref \<Rightarrow> node"
  next_ref :: ref
  next_item :: item
  nodes :: "(string \<times> ref) list"
  edges :: "(string \<times> edge) list"
  selected_item :: "ref option"
  temp_line :: "item option"
  button1 :: handler
  motion :: bool
  app_log :: "string list"
  uuid_src :: "nat \<Rightarrow> string"
  uuid_calls :: nat

datatype error = AttributeError | TypeError

definition uuid4 :: "canvas \<Rightarrow> string \<times> canvas" where
  "uuid4 c = (uuid_src c (uuid_calls c), c\<lparr>uuid_calls := Suc (uuid_calls c)\<rparr>)"

text \<open>\<^verbatim>\<open>given or str(uuid.uuid4())\<close>: \<^verbatim>\<open>None\<close> and the empty string are falsy.\<close>

definition id_or_uuid :: "string option \<Rightarrow> canvas \<Rightarrow> string \<times> canvas" where
  "id_or_uuid given c =
     (case given of
        None \<Rightarrow> uuid4 c
      | Some s \<Rightarrow> if s = [] then uuid4 c else (s, c))"

text \<open>\<^verbatim>\<open>set.add\<close> and \<^verbatim>\<open>set.discard\<close> on \<^verbatim>\<open>connections\<close>.\<close>

definition conn_add :: "string \<Rightarrow> string list \<Rightarrow> string list" where
  "conn_add e cs = (if e \<in> set cs then cs else cs @ [e])"

definition conn_discard :: "string \<Rightarrow> string list \<Rightarrow> string list" where
  "conn_discard e cs = removeAll e cs"

subsection \<open>Node\<close>

text \<open>\<^verbatim>\<open>Node.__init__(canvas, x, y, text, nid)\<close>: returns the new object's reference.\<close>

definition Node_init :: "canvas \<Rightarrow> real \<Rightarrow> real \<Rightarrow> string \<Rightarrow> string option \<Rightarrow> ref \<times> canvas" where
  "Node_init c x y txt nid =
     (let (i, c1) = id_or_uuid nid c;
          r = next_ref c1;
          n = \<lparr>node_id = i, node_x = x, node_y = y, node_width = 160, node_height = 52,
               node_text = txt, node_rect = next_item c1, node_text_id = Suc (next_item c1),
               connections = []\<rparr>
      in (r, c1\<lparr>heap := (heap c1)(r := n), next_ref := Suc r,
                next_item := Suc (Suc (next_item c1))\<rparr>))"

text \<open>\<^verbatim>\<open>Node.on_click\<close>: the node becomes the selection, a provisional line is discarded.\<close>

definition on_click :: "canvas \<Rightarrow> ref \<Rightarrow> canvas" where
  "on_click c r = c\<lparr>selected_item := Some r, temp_line := None\<rparr>"

text \<open>\<^verbatim>\<open>Node.on_right_click\<close>: \<open>new\<close> is what the dialog returned (\<^verbatim>\<open>None\<close> when cancelled).\<close>

definition on_right_click :: "canvas \<Rightarrow> ref \<Rightarrow> string option \<Rightarrow> canvas" where
  "on_right_click c r new =
     (case new of
        None \<Rightarrow> c
      | Some t \<Rightarrow>
          c\<lparr>heap := (heap c)(r := (heap c r)\<lparr>node_text := t\<rparr>),
            app_log := app_log c @ [''Node '' @ [CHR 0x27] @ node_id (heap c r) @ [CHR 0x27]
                                     @ '' text updated.'']\<rparr>)"

text \<open>
  \<^verbatim>\<open>Node.on_drag\<close>: \<open>ex\<close>, \<open>ey\<close> are the event's coordinates. The calls \<^verbatim>\<open>canvas.move\<close> and
  \<^verbatim>\<open>canvas.update_edge\<close> redraw and change nothing of the model.
\<close>

definition on_drag :: "canvas \<Rightarrow> ref \<Rightarrow> real \<Rightarrow> real \<Rightarrow> canvas" where
  "on_drag c r ex ey =
     (let n = heap c r;
          new_x = ex - node_width n / 2;
          new_y = ey - node_height n / 2
      in c\<lparr>heap := (heap c)(r := n\<lparr>node_x := new_x, node_y := new_y\<rparr>)\<rparr>)"

record node_doc =
  nd_id :: "string option"
  nd_x :: "real option"
  nd_y :: "real option"
  nd_text :: "string option"
  nd_width :: "real option"
  nd_height :: "real option"

record edge_doc =
  ed_id :: "string option"
  ed_a :: "string option"
  ed_b :: "string option"

text \<open>
  A diagram document as \<^verbatim>\<open>json.load\<close> returns it: a dictionary whose keys may be absent
  (\<open>None\<close>). A key that is present holds a value of the type the format gives it.
\<close>

record document =
  doc_nodes :: "node_doc list option"
  doc_edges :: "edge_doc list option"

text \<open>\<^verbatim>\<open>Node.serialize\<close> and \<^verbatim>\<open>Edge.serialize\<close>.\<close>

definition Node_serialize :: "node \<Rightarrow> node_doc" where
  "Node_serialize n =
     \<lparr>nd_id = Some (node_id n), nd_x = Some (node_x n), nd_y = Some (node_y n),
      nd_text = Some (node_text n), nd_width = Some (node_width n),
      nd_height = Some (node_height n)\<rparr>"

definition Edge_serialize :: "canvas \<Rightarrow> edge \<Rightarrow> edge_doc" where
  "Edge_serialize c e =
     \<lparr>ed_id = Some (edge_id e), ed_a = Some (node_id (heap c (edge_a e))),
      ed_b = Some (node_id (heap c (edge_b e)))\<rparr>"

subsection \<open>Edge\<close>

text \<open>
  \<^verbatim>\<open>Edge.__init__(canvas, a_node, b_node, eid)\<close> for two \<^verbatim>\<open>Node\<close> objects: the line is created
  and the edge's id is added to the \<^verbatim>\<open>connections\<close> of both.
\<close>

definition Edge_init :: "canvas \<Rightarrow> ref \<Rightarrow> ref \<Rightarrow> string option \<Rightarrow> edge \<times> canvas" where
  "Edge_init c a_node b_node eid =
     (let (i, c1) = id_or_uuid eid c;
          l = next_item c1;
          h1 = (heap c1)(a_node := (heap c1 a_node)
                  \<lparr>connections := conn_add i (connections (heap c1 a_node))\<rparr>);
          h2 = h1(b_node := (h1 b_node)\<lparr>connections := conn_add i (connections (h1 b_node))\<rparr>)
      in (\<lparr>edge_id = i, edge_a = a_node, edge_b = b_node, edge_line = l\<rparr>,
          c1\<lparr>heap := h2, next_item := Suc l\<rparr>))"

subsection \<open>MindMapCanvas\<close>

text \<open>\<^verbatim>\<open>on_double\<close>: a node is created at the pointer.\<close>

text \<open>
  \<^verbatim>\<open>MindMapCanvas.__init__\<close>: no object is allocated yet; \<open>unallocated\<close> stands at the addresses
  of the store that hold no object.
\<close>

definition unallocated :: node where
  "unallocated =
     \<lparr>node_id = [], node_x = 0, node_y = 0, node_width = 0, node_height = 0, node_text = [],
      node_rect = 0, node_text_id = 0, connections = []\<rparr>"

definition MindMapCanvas_init :: "(nat \<Rightarrow> string) \<Rightarrow> canvas" where
  "MindMapCanvas_init uuids =
     \<lparr>heap = (\<lambda>r. unallocated), next_ref = 0, next_item = 1, nodes = [], edges = [],
      selected_item = None, temp_line = None, button1 = On_single, motion = False,
      app_log = [], uuid_src = uuids, uuid_calls = 0\<rparr>"

definition on_double :: "canvas \<Rightarrow> real \<Rightarrow> real \<Rightarrow> canvas" where
  "on_double c ex ey =
     (let (r, c1) = Node_init c (ex - 80) (ey - 26) ''New Node'' None;
          i = node_id (heap c1 r)
      in c1\<lparr>nodes := AList.update i r (nodes c1),
            app_log := app_log c1 @ [''Created node '' @ i]\<rparr>)"

text \<open>\<^verbatim>\<open>on_single\<close>: \<open>clicked\<close> is what \<^verbatim>\<open>find_withtag("current")\<close> returns.\<close>

definition on_single :: "canvas \<Rightarrow> item list \<Rightarrow> canvas" where
  "on_single c clicked = (if clicked = [] then c\<lparr>selected_item := None\<rparr> else c)"

definition start_connection :: "canvas \<Rightarrow> canvas" where
  "start_connection c =
     (case selected_item c of
        None \<Rightarrow> c\<lparr>app_log := app_log c @ [''No node selected to start connection.'']\<rparr>
      | Some s \<Rightarrow>
          c\<lparr>motion := True, button1 := Finish_connection,
            app_log := app_log c @ [''Connection mode: click target node to connect.'']\<rparr>)"

text \<open>
  \<^verbatim>\<open>follow_mouse\<close>: reading \<^verbatim>\<open>self.selected_item.x\<close> raises when nothing is selected; the
  provisional line is a new canvas item.
\<close>

definition follow_mouse :: "canvas \<Rightarrow> error + canvas" where
  "follow_mouse c =
     (case selected_item c of
        None \<Rightarrow> Inl AttributeError
      | Some s \<Rightarrow> Inr (c\<lparr>temp_line := Some (next_item c), next_item := Suc (next_item c)\<rparr>))"

text \<open>
  The search of \<^verbatim>\<open>finish_connection\<close> for the clicked node: \<open>items\<close> is what
  \<^verbatim>\<open>find_overlapping\<close> returns; the first item that is the rectangle or the text of a node of
  \<^verbatim>\<open>self.nodes.values()\<close> decides.
\<close>

fun node_of_item :: "(ref \<Rightarrow> node) \<Rightarrow> item \<Rightarrow> ref list \<Rightarrow> ref option" where
  "node_of_item h it [] = None"
| "node_of_item h it (n # ns) =
     (if it = node_rect (h n) \<or> it = node_text_id (h n) then Some n else node_of_item h it ns)"

fun find_target :: "canvas \<Rightarrow> item list \<Rightarrow> ref option" where
  "find_target c [] = None"
| "find_target c (it # its) =
     (case node_of_item (heap c) it (map snd (nodes c)) of
        Some n \<Rightarrow> Some n
      | None \<Rightarrow> find_target c its)"

text \<open>
  \<^verbatim>\<open>finish_connection\<close>. \<^verbatim>\<open>target != self.selected_item\<close> compares object identities. With a
  target and no selection, \<^verbatim>\<open>Edge.__init__\<close> raises at \<^verbatim>\<open>self.center(self.a)\<close> and the handler
  ends there.
\<close>

definition finish_connection :: "canvas \<Rightarrow> item list \<Rightarrow> error + canvas" where
  "finish_connection c items =
     (let target = find_target c items;
          finish = (\<lambda>c'. c'\<lparr>temp_line := None, motion := False, button1 := On_single\<rparr>)
      in case target of
           None \<Rightarrow>
             Inr (finish (c\<lparr>app_log := app_log c @ [''Connection aborted or clicked same node.'']\<rparr>))
         | Some t \<Rightarrow>
             if Some t \<noteq> selected_item c then
               (case selected_item c of
                  None \<Rightarrow> Inl AttributeError
                | Some s \<Rightarrow>
                    let (e, c1) = Edge_init c s t None
                    in Inr (finish (c1\<lparr>edges := AList.update (edge_id e) e (edges c1),
                          app_log := app_log c1 @
                            [''Created edge '' @ edge_id e @ '' between '' @ node_id (heap c1 (edge_a e))
                             @ '' and '' @ node_id (heap c1 (edge_b e))]\<rparr>)))
             else
               Inr (finish (c\<lparr>app_log := app_log c @ [''Connection aborted or clicked same node.'']\<rparr>)))"

definition delete_edge :: "canvas \<Rightarrow> string \<Rightarrow> canvas" where
  "delete_edge c eid =
     (case map_of (edges c) eid of
        None \<Rightarrow> c
      | Some e \<Rightarrow>
          let h1 = (heap c)(edge_a e := (heap c (edge_a e))
                      \<lparr>connections := conn_discard eid (connections (heap c (edge_a e)))\<rparr>);
              h2 = h1(edge_b e := (h1 (edge_b e))
                      \<lparr>connections := conn_discard eid (connections (h1 (edge_b e)))\<rparr>)
          in c\<lparr>heap := h2,
               edges := (if eid \<in> fst ` set (edges c) then AList.delete eid (edges c) else edges c),
               app_log := app_log c @ [''Deleted edge '' @ eid]\<rparr>)"

text \<open>\<^verbatim>\<open>delete_node(node)\<close>: the loop runs over a copy of the node's \<^verbatim>\<open>connections\<close>.\<close>

definition delete_node :: "canvas \<Rightarrow> ref \<Rightarrow> canvas" where
  "delete_node c r =
     (let c1 = fold (\<lambda>eid c'. delete_edge c' eid) (connections (heap c r)) c;
          i = node_id (heap c1 r)
      in c1\<lparr>nodes := (if i \<in> fst ` set (nodes c1) then AList.delete i (nodes c1) else nodes c1),
            app_log := app_log c1 @ [''Deleted node '' @ i]\<rparr>)"

definition on_delete_key :: "canvas \<Rightarrow> canvas" where
  "on_delete_key c =
     (case selected_item c of
        None \<Rightarrow> c
      | Some s \<Rightarrow> (delete_node c s)\<lparr>selected_item := None\<rparr>)"

definition serialize :: "canvas \<Rightarrow> document" where
  "serialize c =
     \<lparr>doc_nodes = Some (map (\<lambda>(k, r). Node_serialize (heap c r)) (nodes c)),
      doc_edges = Some (map (\<lambda>(k, e). Edge_serialize c e) (edges c))\<rparr>"

text \<open>\<^verbatim>\<open>clear\<close> empties both dictionaries; the selection and the provisional line stay.\<close>

definition clear :: "canvas \<Rightarrow> canvas" where
  "clear c = c\<lparr>nodes := [], edges := []\<rparr>"

text \<open>
  \<^verbatim>\<open>load_from\<close>: the first loop, over the document's node entries, with the local \<^verbatim>\<open>id_map\<close>.
\<close>

definition default :: "'a \<Rightarrow> 'a option \<Rightarrow> 'a" where
  "default d v = (case v of None \<Rightarrow> d | Some w \<Rightarrow> w)"

definition load_node :: "canvas \<times> (string \<times> ref) list \<Rightarrow> node_doc \<Rightarrow> canvas \<times> (string \<times> ref) list" where
  "load_node st nd =
     (let (c, id_map) = st;
          (r, c1) = Node_init c (default 10 (nd_x nd)) (default 10 (nd_y nd))
                      (default ''New Node'' (nd_text nd)) (nd_id nd);
          n = heap c1 r;
          n1 = n\<lparr>node_width := default (node_width n) (nd_width nd)\<rparr>;
          n2 = n1\<lparr>node_height := default (node_height n1) (nd_height nd)\<rparr>;
          c2 = c1\<lparr>heap := (heap c1)(r := n2)\<rparr>
      in (c2\<lparr>nodes := AList.update (node_id n2) r (nodes c2)\<rparr>,
          AList.update (node_id n2) r id_map))"

text \<open>The second loop, over the document's edge entries.\<close>

definition lookup_id :: "(string \<times> ref) list \<Rightarrow> string option \<Rightarrow> ref option" where
  "lookup_id id_map k = (case k of None \<Rightarrow> None | Some s \<Rightarrow> map_of id_map s)"

definition load_edge :: "(string \<times> ref) list \<Rightarrow> canvas \<Rightarrow> edge_doc \<Rightarrow> canvas" where
  "load_edge id_map c ed =
     (case (lookup_id id_map (ed_a ed), lookup_id id_map (ed_b ed)) of
        (Some a, Some b) \<Rightarrow>
          (let (e, c1) = Edge_init c a b (ed_id ed)
           in c1\<lparr>edges := AList.update (edge_id e) e (edges c1)\<rparr>)
      | _ \<Rightarrow> c)"

definition load_nodes ::
  "node_doc list \<Rightarrow> canvas \<times> (string \<times> ref) list \<Rightarrow> canvas \<times> (string \<times> ref) list" where
  "load_nodes nds st = fold (\<lambda>nd st'. load_node st' nd) nds st"

definition load_edges :: "(string \<times> ref) list \<Rightarrow> edge_doc list \<Rightarrow> canvas \<Rightarrow> canvas" where
  "load_edges id_map eds c = fold (\<lambda>ed c'. load_edge id_map c' ed) eds c"

text \<open>\<^verbatim>\<open>load_from(data)\<close>; \<^verbatim>\<open>data.get("nodes", [])\<close> and \<^verbatim>\<open>data.get("edges", [])\<close>.\<close>

definition load_from :: "canvas \<Rightarrow> document \<Rightarrow> canvas" where
  "load_from c data =
     (let (c1, id_map) = load_nodes (default [] (doc_nodes data)) (clear c, [])
      in load_edges id_map (default [] (doc_edges data)) c1)"

section \<open>The document store and the application\<close>

text \<open>
  The files of \<^verbatim>\<open>data/<username>/\<close>: the index \<^verbatim>\<open>maps_index.json\<close> (absent, unreadable for
  \<^verbatim>\<open>json.load\<close>, or a dictionary from map id to metadata) and the bodies \<^verbatim>\<open>maps/<id>.json\<close>.
  A metadata dictionary has the keys \<^verbatim>\<open>title\<close>, \<^verbatim>\<open>created\<close> and \<^verbatim>\<open>modified\<close>, each of which may
  be absent. Directories are not modelled (\<^verbatim>\<open>ensure_user_folders\<close> creates them at login and
  before a body is written). \<open>written\<close> records every write to a file, in order.
\<close>

type_synonym meta = "(string \<times> string) list"

datatype index_content = Unreadable | Index "(string \<times> meta) list"

record workspace =
  index_file :: "index_content option"
  map_files :: "(string \<times> document) list"

datatype fs_op = Write_index string | Write_body string string | Remove_body string string

record disk =
  workspaces :: "string \<Rightarrow> workspace"
  written :: "fs_op list"

definition ensure_user_folders :: "disk \<Rightarrow> string \<Rightarrow> disk" where
  "ensure_user_folders d username =
     (case index_file (workspaces d username) of
        None \<Rightarrow>
          d\<lparr>workspaces := (workspaces d)(username := (workspaces d username)\<lparr>index_file := Some (Index [])\<rparr>),
            written := written d @ [Write_index username]\<rparr>
      | Some f \<Rightarrow> d)"

definition load_user_maps_index :: "disk \<Rightarrow> string \<Rightarrow> (string \<times> meta) list" where
  "load_user_maps_index d username =
     (case index_file (workspaces d username) of
        None \<Rightarrow> []
      | Some Unreadable \<Rightarrow> []
      | Some (Index idx) \<Rightarrow> idx)"

definition save_user_maps_index :: "disk \<Rightarrow> string \<Rightarrow> (string \<times> meta) list \<Rightarrow> disk" where
  "save_user_maps_index d username index_data =
     d\<lparr>workspaces := (workspaces d)(username := (workspaces d username)\<lparr>index_file := Some (Index index_data)\<rparr>),
       written := written d @ [Write_index username]\<rparr>"

definition save_map_file :: "disk \<Rightarrow> string \<Rightarrow> string \<Rightarrow> document \<Rightarrow> disk" where
  "save_map_file d username map_id data =
     (let d1 = ensure_user_folders d username;
          w = workspaces d1 username
      in d1\<lparr>workspaces := (workspaces d1)(username := w\<lparr>map_files := AList.update map_id data (map_files w)\<rparr>),
            written := written d1 @ [Write_body username map_id]\<rparr>)"

definition load_map_file :: "disk \<Rightarrow> string \<Rightarrow> string \<Rightarrow> document option" where
  "load_map_file d username map_id = map_of (map_files (workspaces d username)) map_id"

definition delete_map_file :: "disk \<Rightarrow> string \<Rightarrow> string \<Rightarrow> disk" where
  "delete_map_file d username map_id =
     (let w = workspaces d username
      in if map_id \<in> fst ` set (map_files w)
         then d\<lparr>workspaces := (workspaces d)(username := w\<lparr>map_files := AList.delete map_id (map_files w)\<rparr>),
                written := written d @ [Remove_body username map_id]\<rparr>
         else d)"

text \<open>
  \<^verbatim>\<open>class MindMapApp\<close>: the attributes the handlers read and write, the rows of the list box
  \<^verbatim>\<open>maps_list\<close>, the canvas and the files. The status line, the info panel and the message
  boxes are not modelled. \<^verbatim>\<open>app.log\<close> appends to the canvas's \<open>app_log\<close>.
\<close>

record app =
  current_user :: "string option"
  current_map_id :: "string option"
  current_map_meta :: "meta option"
  maps_list :: "string list"
  canvas :: canvas
  files :: disk

definition MindMapApp_init :: "(nat \<Rightarrow> string) \<Rightarrow> disk \<Rightarrow> app" where
  "MindMapApp_init uuids d =
     \<lparr>current_user = None, current_map_id = None, current_map_meta = None, maps_list = [],
      canvas = MindMapCanvas_init uuids, files = d\<rparr>"

text \<open>Python's truth value of a string or \<^verbatim>\<open>None\<close>, and of a dictionary or \<^verbatim>\<open>None\<close>.\<close>

definition truthy :: "'a list option \<Rightarrow> bool" where
  "truthy v = (case v of None \<Rightarrow> False | Some s \<Rightarrow> s \<noteq> [])"

definition log_msg :: "app \<Rightarrow> string \<Rightarrow> app" where
  "log_msg a msg = a\<lparr>canvas := (canvas a)\<lparr>app_log := app_log (canvas a) @ [msg]\<rparr>\<rparr>"

definition quoted :: "string \<Rightarrow> string" where
  "quoted s = [CHR 0x27] @ s @ [CHR 0x27]"

text \<open>
  A row of the list box: the id, a bar, the title, a dash (U+2014, here in UTF-8) between two
  spaces, and the \<^verbatim>\<open>modified\<close> time. The handlers recover the id of a row with
  \<^verbatim>\<open>val.split("|", 1)[0]\<close>.
\<close>

definition list_row :: "string \<times> meta \<Rightarrow> string" where
  "list_row kv =
     (let (mid, m) = kv;
          title = default mid (map_of m ''title'')
      in mid @ ''|'' @ title @ [CHR '' '', CHR 0xE2, CHR 0x80, CHR 0x94, CHR '' '']
           @ default [] (map_of m ''modified''))"

definition row_id :: "string \<Rightarrow> string" where
  "row_id val = takeWhile (\<lambda>ch. ch \<noteq> CHR ''|'') val"

text \<open>
  \<^verbatim>\<open>sorted(idx.items(), key=..., reverse=True)\<close>: descending by the \<^verbatim>\<open>modified\<close> string, entries
  with equal keys in their original order.
\<close>

definition sorted_items :: "(string \<times> meta) list \<Rightarrow> (string \<times> meta) list" where
  "sorted_items idx = rev (sort_key (\<lambda>kv. default [] (map_of (snd kv) ''modified'')) (rev idx))"

definition refresh_maps_list :: "app \<Rightarrow> app" where
  "refresh_maps_list a =
     (case current_user a of
        None \<Rightarrow> a\<lparr>maps_list := []\<rparr>
      | Some u \<Rightarrow>
          if u = [] then a\<lparr>maps_list := []\<rparr>
          else a\<lparr>maps_list := map list_row (sorted_items (load_user_maps_index (files a) u))\<rparr>)"

definition login_user :: "app \<Rightarrow> string \<Rightarrow> app" where
  "login_user a username =
     (let a1 = a\<lparr>current_user := Some username, files := ensure_user_folders (files a) username\<rparr>;
          a2 = log_msg a1 (''User '' @ quoted username @ '' logged in.'')
      in refresh_maps_list a2)"

definition logout_user :: "app \<Rightarrow> app" where
  "logout_user a =
     (if \<not> truthy (current_user a) then log_msg a ''No user is logged in.''
      else
        let a1 = log_msg a (''User '' @ quoted (default [] (current_user a)) @ '' logged out.'')
        in a1\<lparr>current_user := None, current_map_id := None, maps_list := [],
              canvas := clear (canvas a1)\<rparr>)"

text \<open>
  \<open>now k\<close> is what the \<open>k\<close>-th call of \<^verbatim>\<open>now_str()\<close> whose result the handler stores returns;
  \<open>title\<close> is the answer of the title dialog (\<^verbatim>\<open>None\<close> when cancelled).
\<close>

definition new_map_for_user :: "app \<Rightarrow> string option \<Rightarrow> (nat \<Rightarrow> string) \<Rightarrow> app" where
  "new_map_for_user a title now =
     (case (truthy (current_user a), current_user a, title) of
        (True, Some u, Some t) \<Rightarrow>
          (let (i, cv) = uuid4 (clear (canvas a));
               m = [(''title'', t), (''created'', now 0), (''modified'', now 1)];
               idx = load_user_maps_index (files a) u;
               a1 = a\<lparr>canvas := cv, current_map_id := Some i, current_map_meta := Some m,
                      files := save_user_maps_index (files a) u (AList.update i m idx)\<rparr>
           in log_msg (refresh_maps_list a1)
                (''Created new map '' @ quoted t @ '' (id='' @ i @ '').''))
      | _ \<Rightarrow> a)"

definition load_map :: "app \<Rightarrow> string \<Rightarrow> app" where
  "load_map a map_id =
     (case (truthy (current_user a), current_user a) of
        (True, Some u) \<Rightarrow>
          (case load_map_file (files a) u map_id of
             None \<Rightarrow> a
           | Some data \<Rightarrow>
               let idx = load_user_maps_index (files a) u;
                   a1 = a\<lparr>canvas := load_from (canvas a) data, current_map_id := Some map_id,
                          current_map_meta :=
                            Some (default [(''title'', ''Untitled'')] (map_of idx map_id))\<rparr>
               in log_msg a1 (''Loaded map '' @ map_id))
      | _ \<Rightarrow> log_msg a ''Login to open maps.'')"

text \<open>
  \<open>sel\<close> is the selected row of the list box (\<^verbatim>\<open>curselection\<close>), \<open>None\<close> when no row is
  selected; Tk's \<^verbatim>\<open>get\<close> returns the empty string for an index that is not a row.
\<close>

definition selected_row :: "app \<Rightarrow> nat \<Rightarrow> string" where
  "selected_row a i = (if i < length (maps_list a) then maps_list a ! i else [])"

definition open_selected_map :: "app \<Rightarrow> nat option \<Rightarrow> app" where
  "open_selected_map a sel =
     (case sel of
        None \<Rightarrow> a
      | Some i \<Rightarrow> load_map a (row_id (selected_row a i)))"

text \<open>
  \<^verbatim>\<open>delete_selected_map\<close>: \<open>yes\<close> is the answer of the confirmation dialog. Without a user,
  \<^verbatim>\<open>os.path.join\<close> raises on \<^verbatim>\<open>None\<close>.
\<close>

definition delete_selected_map :: "app \<Rightarrow> nat option \<Rightarrow> bool \<Rightarrow> error + app" where
  "delete_selected_map a sel yes =
     (case sel of
        None \<Rightarrow> Inr a
      | Some i \<Rightarrow>
          let mid = row_id (selected_row a i)
          in if \<not> yes then Inr a
             else
               (case current_user a of
                  None \<Rightarrow> Inl TypeError
                | Some u \<Rightarrow>
                    let d1 = delete_map_file (files a) u mid;
                        idx = load_user_maps_index d1 u;
                        d2 = (if mid \<in> fst ` set idx
                              then save_user_maps_index d1 u (AList.delete mid idx) else d1)
                    in Inr (log_msg (refresh_maps_list (a\<lparr>files := d2\<rparr>)) (''Deleted map '' @ mid))))"

text \<open>
  \<^verbatim>\<open>open_map_dialog\<close>: \<open>choice\<close> is \<open>None\<close> when the file dialog is cancelled, and otherwise the
  chosen path, its base name without extension, and what \<^verbatim>\<open>json.load\<close> returns for the file
  (\<open>None\<close> when it raises, which the handler catches).
\<close>

definition open_map_dialog ::
  "app \<Rightarrow> (string \<times> string \<times> document option) option \<Rightarrow> (nat \<Rightarrow> string) \<Rightarrow> app" where
  "open_map_dialog a choice now =
     (case (truthy (current_user a), current_user a, choice) of
        (True, Some u, Some (path, mid, Some data)) \<Rightarrow>
          (let a1 = a\<lparr>canvas := load_from (canvas a) data, current_map_id := Some mid\<rparr>;
               idx = load_user_maps_index (files a1) u;
               a2 = (if mid \<notin> fst ` set idx
                     then a1\<lparr>files := save_user_maps_index (files a1) u
                            (AList.update mid
                               [(''title'', mid), (''created'', now 0), (''modified'', now 1)] idx)\<rparr>
                     else a1)
           in log_msg (refresh_maps_list a2) (''Opened map from '' @ path))
      | _ \<Rightarrow> a)"

text \<open>
  \<^verbatim>\<open>save_map\<close>. \<^verbatim>\<open>meta = self.current_map_meta or {}\<close> is the attribute's own dictionary when
  that is not empty, so the assignments to \<^verbatim>\<open>meta\<close> change the attribute too; otherwise
  \<^verbatim>\<open>meta\<close> is a new dictionary and the attribute stays as it is.
\<close>

definition save_map :: "app \<Rightarrow> string option \<Rightarrow> (nat \<Rightarrow> string) \<Rightarrow> app" where
  "save_map a title now =
     (case (truthy (current_user a), current_user a) of
        (True, Some u) \<Rightarrow>
          (let fresh = \<not> truthy (current_map_id a)
           in if fresh \<and> title = None then a
              else
                let (a1, k) =
                      (if fresh
                       then (let (i, cv) = uuid4 (canvas a)
                             in (a\<lparr>canvas := cv, current_map_id := Some i,
                                   current_map_meta :=
                                     Some [(''title'', default [] title), (''created'', now 0),
                                           (''modified'', now 1)]\<rparr>, 2))
                       else (a, 0));
                    mid = default [] (current_map_id a1);
                    data = serialize (canvas a1);
                    d1 = save_map_file (files a1) u mid data;
                    idx = load_user_maps_index d1 u;
                    shared = truthy (current_map_meta a1);
                    meta0 = (if shared then default [] (current_map_meta a1) else []);
                    meta1 = AList.update ''modified'' (now k) meta0;
                    meta2 = (if ''created'' \<notin> fst ` set meta1
                             then AList.update ''created'' (now (Suc k)) meta1 else meta1);
                    d2 = save_user_maps_index d1 u (AList.update mid meta2 idx);
                    a2 = a1\<lparr>files := d2,
                           current_map_meta := (if shared then Some meta2 else current_map_meta a1)\<rparr>
                in log_msg (refresh_maps_list a2)
                     (''Saved map '' @ quoted (default ''untitled'' (map_of meta2 ''title''))
                        @ '' (id='' @ mid @ '')''))
      | _ \<Rightarrow> a)"

definition canvas_start_connection :: "app \<Rightarrow> app" where
  "canvas_start_connection a =
     (case selected_item (canvas a) of
        None \<Rightarrow> log_msg a ''Select a node first (left-click).''
      | Some s \<Rightarrow> a\<lparr>canvas := start_connection (canvas a)\<rparr>)"

definition delete_selected_node :: "app \<Rightarrow> app" where
  "delete_selected_node a =
     (case selected_item (canvas a) of
        None \<Rightarrow> log_msg a ''No node selected to delete.''
      | Some s \<Rightarrow> a\<lparr>canvas := (delete_node (canvas a) s)\<lparr>selected_item := None\<rparr>\<rparr>)"

section \<open>Notions used in the statements\<close>

text \<open>
  A node is stored under its own id, an edge under its own id, and an edge's id is in the
  \<^verbatim>\<open>connections\<close> of both its end points. The keys of a dictionary are distinct.
\<close>

definition wf_nodes :: "canvas \<Rightarrow> bool" where
  "wf_nodes c \<longleftrightarrow>
     distinct (map fst (nodes c)) \<and> list_all (\<lambda>(k, r). node_id (heap c r) = k) (nodes c)"

definition wf_edges :: "canvas \<Rightarrow> bool" where
  "wf_edges c \<longleftrightarrow>
     distinct (map fst (edges c)) \<and>
     list_all (\<lambda>(k, e). edge_id e = k \<and> k \<in> set (connections (heap c (edge_a e)))
                          \<and> k \<in> set (connections (heap c (edge_b e)))) (edges c)"

text \<open>Every reference the canvas holds is the address of an object that has been created.\<close>

definition allocated :: "canvas \<Rightarrow> bool" where
  "allocated c \<longleftrightarrow>
     list_all (\<lambda>(k, r). r < next_ref c) (nodes c) \<and>
     list_all (\<lambda>(k, e). edge_a e < next_ref c \<and> edge_b e < next_ref c) (edges c) \<and>
     (\<forall>s \<in> set_option (selected_item c). s < next_ref c)"

definition wf_canvas :: "canvas \<Rightarrow> bool" where
  "wf_canvas c \<longleftrightarrow> wf_nodes c \<and> wf_edges c \<and> allocated c"

text \<open>No id of the diagram is the empty string (an id is a given truthy one or a uuid).\<close>

definition ids_truthy :: "canvas \<Rightarrow> bool" where
  "ids_truthy c \<longleftrightarrow> list_all (\<lambda>k. k \<noteq> []) (map fst (nodes c) @ map fst (edges c))"

text \<open>Both end points of every edge carry the id of a node of the diagram.\<close>

definition resolvable :: "canvas \<Rightarrow> bool" where
  "resolvable c \<longleftrightarrow>
     list_all (\<lambda>(k, e). node_id (heap c (edge_a e)) \<in> fst ` set (nodes c)
                      \<and> node_id (heap c (edge_b e)) \<in> fst ` set (nodes c)) (edges c)"

text \<open>Both end points of every edge are nodes of the diagram, the objects themselves.\<close>

definition endpoints_present :: "canvas \<Rightarrow> bool" where
  "endpoints_present c \<longleftrightarrow>
     list_all (\<lambda>(k, e). edge_a e \<in> snd ` set (nodes c) \<and> edge_b e \<in> snd ` set (nodes c)) (edges c)"

text \<open>
  The edge stored under the id \<open>k\<close> has the object \<open>r\<close> as an end point; \<^verbatim>\<open>delete_edge(k)\<close>
  removes \<open>k\<close> from the \<^verbatim>\<open>connections\<close> of exactly these objects.
\<close>

definition incident :: "canvas \<Rightarrow> ref \<Rightarrow> string \<Rightarrow> bool" where
  "incident c r k \<longleftrightarrow>
     (case map_of (edges c) k of None \<Rightarrow> False | Some e \<Rightarrow> edge_a e = r \<or> edge_b e = r)"

text \<open>
  The ids that \<^verbatim>\<open>given or str(uuid.uuid4())\<close> yields for a list of given ids, when the next
  uuid is the \<open>k\<close>-th, and the number of uuids that takes.
\<close>

fun assigned_ids :: "(nat \<Rightarrow> string) \<Rightarrow> nat \<Rightarrow> string option list \<Rightarrow> string list" where
  "assigned_ids U k [] = []"
| "assigned_ids U k (None # gs) = U k # assigned_ids U (Suc k) gs"
| "assigned_ids U k (Some s # gs) =
     (if s = [] then U k # assigned_ids U (Suc k) gs else s # assigned_ids U k gs)"

fun uuid_draws :: "string option list \<Rightarrow> nat" where
  "uuid_draws [] = 0"
| "uuid_draws (None # gs) = Suc (uuid_draws gs)"
| "uuid_draws (Some s # gs) = (if s = [] then Suc (uuid_draws gs) else uuid_draws gs)"

text \<open>A node entry with every key present: the given id and the defaults of \<^verbatim>\<open>load_from\<close>.\<close>

definition filled :: "node_doc \<Rightarrow> string \<Rightarrow> node_doc" where
  "filled nd i =
     \<lparr>nd_id = Some i, nd_x = Some (default 10 (nd_x nd)), nd_y = Some (default 10 (nd_y nd)),
      nd_text = Some (default ''New Node'' (nd_text nd)),
      nd_width = Some (default 160 (nd_width nd)), nd_height = Some (default 52 (nd_height nd))\<rparr>"

text \<open>Both end points of an edge entry are given and are among the ids \<open>ids\<close>.\<close>

definition resolves :: "string list \<Rightarrow> edge_doc \<Rightarrow> bool" where
  "resolves ids ed \<longleftrightarrow>
     (case (ed_a ed, ed_b ed) of
        (Some a, Some b) \<Rightarrow> a \<in> set ids \<and> b \<in> set ids
      | _ \<Rightarrow> False)"

text \<open>
  A source of uuids and the diagram of the scenario "create node A at (10,10), create node B
  at (200,10), connect A to B", built by the handlers: two double clicks, a click on A, the
  Connect command and a click on B's rectangle (item 3).
\<close>

definition demo_uuids :: "nat \<Rightarrow> string" where
  "demo_uuids k = ''u'' @ replicate k (CHR ''x'')"

definition demo_connecting :: canvas where
  "demo_connecting =
     start_connection (on_click (on_double (on_double (MindMapCanvas_init demo_uuids) 90 36) 280 36) 0)"

definition demo_canvas :: canvas where
  "demo_canvas = (case finish_connection demo_connecting [3] of Inr c \<Rightarrow> c | Inl e \<Rightarrow> demo_connecting)"

text \<open>
  Three documents: one whose second edge names a node that is not in the node list, one
  whose only edge joins a node to itself, and one with a node entry that has only an id.
\<close>

definition dangling_doc :: document where
  "dangling_doc =
     \<lparr>doc_nodes = Some [\<lparr>nd_id = Some ''A'', nd_x = Some 10, nd_y = Some 10, nd_text = Some ''a'',
                          nd_width = Some 160, nd_height = Some 52\<rparr>,
                        \<lparr>nd_id = Some ''B'', nd_x = Some 200, nd_y = Some 10, nd_text = Some ''b'',
                          nd_width = Some 160, nd_height = Some 52\<rparr>],
      doc_edges = Some [\<lparr>ed_id = Some ''e1'', ed_a = Some ''A'', ed_b = Some ''B''\<rparr>,
                        \<lparr>ed_id = Some ''e2'', ed_a = Some ''A'', ed_b = Some ''Z''\<rparr>]\<rparr>"

definition self_loop_doc :: document where
  "self_loop_doc =
     \<lparr>doc_nodes = Some [\<lparr>nd_id = Some ''A'', nd_x = Some 10, nd_y = Some 10, nd_text = Some ''a'',
                          nd_width = Some 160, nd_height = Some 52\<rparr>],
      doc_edges = Some [\<lparr>ed_id = Some ''e'', ed_a = Some ''A'', ed_b = Some ''A''\<rparr>]\<rparr>"

definition bare_doc :: document where
  "bare_doc =
     \<lparr>doc_nodes = Some [\<lparr>nd_id = Some ''A'', nd_x = None, nd_y = None, nd_text = None,
                          nd_width = None, nd_height = None\<rparr>,
                        \<lparr>nd_id = None, nd_x = Some 5, nd_y = None, nd_text = Some ''b'',
                          nd_width = None, nd_height = Some 40\<rparr>],
      doc_edges = None\<rparr>"

text \<open>
  A node is created and selected, another document (one node, \<open>B\<close>) is opened, and the
  Connect command is given: the selection is still the node of the diagram that \<^verbatim>\<open>load_from\<close>
  cleared.
\<close>

definition stale_selection :: canvas where
  "stale_selection =
     start_connection
       (load_from (on_click (on_double (MindMapCanvas_init demo_uuids) 90 36) 0)
          \<lparr>doc_nodes = Some [\<lparr>nd_id = Some ''B'', nd_x = Some 200, nd_y = Some 10,
                                nd_text = Some ''b'', nd_width = Some 160, nd_height = Some 52\<rparr>],
           doc_edges = Some []\<rparr>)"

text \<open>
  A clock, a disk on which the account \<open>bob\<close> has one stored diagram \<open>m1\<close>, titled and created
  earlier, and the application after \<open>bob\<close> has logged in and opened that diagram's file with
  the Open dialog.
\<close>

definition demo_clock :: "nat \<Rightarrow> string" where
  "demo_clock k = (if k = 0 then ''2026-11-04 10:00:00'' else ''2026-11-04 10:00:01'')"

definition demo_disk :: disk where
  "demo_disk =
     \<lparr>workspaces = (\<lambda>u. \<lparr>index_file = None, map_files = []\<rparr>)
        (''bob'' := \<lparr>index_file = Some (Index [(''m1'', [(''title'', ''Plan''),
                          (''created'', ''2026-01-01 09:00:00''),
                          (''modified'', ''2026-01-02 09:00:00'')])]),
                    map_files = [(''m1'', dangling_doc)]\<rparr>),
      written = []\<rparr>"

definition demo_app :: app where
  "demo_app = login_user (MindMapApp_init demo_uuids demo_disk) ''bob''"

text \<open>The same application when the files of \<open>bob\<close> hold no diagram any more.\<close>

definition stale_list_app :: app where
  "stale_list_app =
     demo_app\<lparr>files := \<lparr>workspaces = (\<lambda>u. \<lparr>index_file = Some (Index []), map_files = []\<rparr>),
                         written = []\<rparr>\<rparr>"

definition opened_by_dialog :: app where
  "opened_by_dialog =
     open_map_dialog demo_app (Some (''data/bob/maps/m1.json'', ''m1'', Some dangling_doc)) demo_clock"

text \<open>
  Two documents that use the edge id \<open>e1\<close>, for different nodes; and the canvas after the
  first is opened, its node \<open>A\<close> is clicked, and the second is opened: the selection is still
  the object \<open>A\<close> of the first diagram, whose \<^verbatim>\<open>connections\<close> hold \<open>e1\<close>.
\<close>

definition ab_doc :: document where
  "ab_doc =
     \<lparr>doc_nodes = Some [\<lparr>nd_id = Some ''A'', nd_x = Some 10, nd_y = Some 10, nd_text = Some ''a'',
                          nd_width = Some 160, nd_height = Some 52\<rparr>,
                        \<lparr>nd_id = Some ''B'', nd_x = Some 200, nd_y = Some 10, nd_text = Some ''b'',
                          nd_width = Some 160, nd_height = Some 52\<rparr>],
      doc_edges = Some [\<lparr>ed_id = Some ''e1'', ed_a = Some ''A'', ed_b = Some ''B''\<rparr>]\<rparr>"

definition cd_doc :: document where
  "cd_doc =
     \<lparr>doc_nodes = Some [\<lparr>nd_id = Some ''C'', nd_x = Some 10, nd_y = Some 10, nd_text = Some ''c'',
                          nd_width = Some 160, nd_height = Some 52\<rparr>,
                        \<lparr>nd_id = Some ''D'', nd_x = Some 200, nd_y = Some 10, nd_text = Some ''d'',
                          nd_width = Some 160, nd_height = Some 52\<rparr>],
      doc_edges = Some [\<lparr>ed_id = Some ''e1'', ed_a = Some ''C'', ed_b = Some ''D''\<rparr>]\<rparr>"

definition stale_delete :: canvas where
  "stale_delete = load_from (on_click (load_from (MindMapCanvas_init demo_uuids) ab_doc) 0) cd_doc"

text \<open>
  Documents in which an id is used twice: two node entries with the id \<open>A\<close>, the first with
  no other key; and three node entries of which the first and the last have the id \<open>A\<close>, with
  two edge entries of id \<open>e1\<close> whose end points resolve and one, \<open>e2\<close>, whose end point \<open>Z\<close>
  does not.
\<close>

definition twin_doc :: document where
  "twin_doc =
     \<lparr>doc_nodes = Some [\<lparr>nd_id = Some ''A'', nd_x = None, nd_y = None, nd_text = None,
                          nd_width = None, nd_height = None\<rparr>,
                        \<lparr>nd_id = Some ''A'', nd_x = Some 5, nd_y = Some 7, nd_text = Some ''second'',
                          nd_width = Some 100, nd_height = Some 40\<rparr>],
      doc_edges = None\<rparr>"


text \<open>
  The account \<open>bob\<close> with the stored diagram \<open>m1\<close> and a second body file
  \<^verbatim>\<open>maps/m1|draft.json\<close>; \<open>bob\<close> logs in and opens that file with the Open dialog, which
  takes the file's base name \<open>m1|draft\<close> as the diagram's id and enters it in the index.
\<close>

definition bar_disk :: disk where
  "bar_disk =
     \<lparr>workspaces = (\<lambda>u. \<lparr>index_file = None, map_files = []\<rparr>)
        (''bob'' := \<lparr>index_file = Some (Index [(''m1'', [(''title'', ''Plan''),
                          (''created'', ''2026-01-01 09:00:00''),
                          (''modified'', ''2026-01-02 09:00:00'')])]),
                    map_files = [(''m1'', dangling_doc), (''m1|draft'', self_loop_doc)]\<rparr>),
      written = []\<rparr>"

definition bar_app :: app where
  "bar_app =
     open_map_dialog (login_user (MindMapApp_init demo_uuids bar_disk) ''bob'')
       (Some (''data/bob/maps/m1|draft.json'', ''m1|draft'', Some self_loop_doc)) demo_clock"

section \<open>Dictionaries\<close>

lemma update_fresh: "k \<notin> fst ` set al \<Longrightarrow> AList.update k v al = al @ [(k, v)]"
  by (induction al) auto

lemma upt_first: "[a ..< a + Suc n] = a # [Suc a ..< Suc a + n]"
  by (simp add: upt_conv_Cons)

section \<open>Deleting edges and nodes\<close>


lemma delete_edge_edges: "edges (delete_edge c k) = AList.delete k (edges c)"
  by (auto simp: delete_edge_def Let_def map_of_eq_None_iff split: option.splits)

lemma delete_edge_nodes: "nodes (delete_edge c k) = nodes c"
  by (simp add: delete_edge_def Let_def split: option.splits)

lemma delete_edge_node_id: "node_id (heap (delete_edge c k) r) = node_id (heap c r)"
  by (simp add: delete_edge_def Let_def split: option.splits)

lemma delete_edge_conn_subset:
  "set (connections (heap (delete_edge c k) r)) \<subseteq> set (connections (heap c r))"
  by (auto simp: delete_edge_def Let_def conn_discard_def split: option.splits if_splits)

lemma delete_edge_absent: "map_of (edges c) k = None \<Longrightarrow> delete_edge c k = c"
  by (simp add: delete_edge_def)

lemma delete_edge_discards:
  "map_of (edges c) k = Some e \<Longrightarrow>
     k \<notin> set (connections (heap (delete_edge c k) (edge_a e))) \<and>
     k \<notin> set (connections (heap (delete_edge c k) (edge_b e)))"
  by (simp add: delete_edge_def Let_def conn_discard_def)

lemma fold_delete_edge_edges:
  "edges (fold (\<lambda>eid c'. delete_edge c' eid) ks c) = filter (\<lambda>p. fst p \<notin> set ks) (edges c)"
  by (induction ks arbitrary: c) (auto simp: delete_edge_edges AList.delete_eq intro: filter_cong)

lemma fold_delete_edge_nodes: "nodes (fold (\<lambda>eid c'. delete_edge c' eid) ks c) = nodes c"
  by (induction ks arbitrary: c) (auto simp: delete_edge_nodes)

lemma fold_delete_edge_node_id:
  "node_id (heap (fold (\<lambda>eid c'. delete_edge c' eid) ks c) r) = node_id (heap c r)"
  by (induction ks arbitrary: c) (auto simp: delete_edge_node_id)

lemma fold_delete_edge_conn_subset:
  "set (connections (heap (fold (\<lambda>eid c'. delete_edge c' eid) ks c) r)) \<subseteq> set (connections (heap c r))"
proof (induction ks arbitrary: c)
  case Nil
  show ?case by simp
next
  case (Cons k ks)
  have "set (connections (heap (fold (\<lambda>eid c'. delete_edge c' eid) ks (delete_edge c k)) r))
          \<subseteq> set (connections (heap (delete_edge c k) r))"
    by (rule Cons.IH)
  also have "\<dots> \<subseteq> set (connections (heap c r))"
    by (rule delete_edge_conn_subset)
  finally show ?case by simp
qed

lemma fold_delete_edge_absent:
  "\<forall>k\<in>set ks. map_of (edges c) k = None \<Longrightarrow> fold (\<lambda>eid c'. delete_edge c' eid) ks c = c"
  by (induction ks) (auto simp: delete_edge_absent)

lemma fold_delete_edge_discards:
  assumes "distinct (map fst (edges c))" "(k, e) \<in> set (edges c)" "k \<in> set ks"
  shows "k \<notin> set (connections (heap (fold (\<lambda>eid c'. delete_edge c' eid) ks c) (edge_a e))) \<and>
         k \<notin> set (connections (heap (fold (\<lambda>eid c'. delete_edge c' eid) ks c) (edge_b e)))"
  using assms
proof (induction ks arbitrary: c)
  case Nil
  then show ?case by simp
next
  case (Cons k1 ks)
  show ?case
  proof (cases "k1 = k")
    case True
    from Cons.prems have "map_of (edges c) k = Some e" by simp
    from delete_edge_discards[OF this] True
    show ?thesis
      using fold_delete_edge_conn_subset[of ks "delete_edge c k"] by auto
  next
    case False
    with Cons.prems have "k \<in> set ks" by simp
    moreover have "distinct (map fst (edges (delete_edge c k1)))"
      using Cons.prems(1) by (simp add: delete_edge_edges distinct_delete)
    moreover have "(k, e) \<in> set (edges (delete_edge c k1))"
      using Cons.prems(2) False by (auto simp: delete_edge_edges AList.delete_eq)
    ultimately show ?thesis using Cons.IH[of "delete_edge c k1"] by simp
  qed
qed

lemma delete_node_nodes:
  "nodes (delete_node c r) = AList.delete (node_id (heap c r)) (nodes c)"
  by (auto simp: delete_node_def Let_def fold_delete_edge_nodes fold_delete_edge_node_id)

lemma delete_node_edges:
  "edges (delete_node c r) = filter (\<lambda>p. fst p \<notin> set (connections (heap c r))) (edges c)"
  by (simp add: delete_node_def Let_def fold_delete_edge_edges)

lemma delete_node_heap:
  "heap (delete_node c r) = heap (fold (\<lambda>eid c'. delete_edge c' eid) (connections (heap c r)) c)"
  by (simp add: delete_node_def Let_def)

text \<open>
  What deleting does to the \<^verbatim>\<open>connections\<close> of every object of the store: an id goes exactly
  when it is the id of an edge that is deleted and that has the object as an end point.
\<close>

lemma filter_neq_flip: "filter ((\<noteq>) k) xs = filter (\<lambda>k'. k' \<noteq> k) xs"
  by (rule filter_cong) auto

lemma delete_edge_heap:
  "heap (delete_edge c k) r =
     (heap c r)\<lparr>connections :=
        filter (\<lambda>k'. \<not> (k' = k \<and> incident c r k)) (connections (heap c r))\<rparr>"
  by (auto simp: delete_edge_def Let_def conn_discard_def removeAll_filter_not_eq incident_def
        filter_neq_flip split: option.splits)

lemma incident_delete_edge:
  "incident (delete_edge c k) r k' \<longleftrightarrow> k' \<noteq> k \<and> incident c r k'"
  by (auto simp: incident_def delete_edge_edges delete_conv' split: option.splits)

lemma fold_delete_edge_heap:
  "heap (fold (\<lambda>eid c'. delete_edge c' eid) ks c) r =
     (heap c r)\<lparr>connections :=
        filter (\<lambda>k. \<not> (k \<in> set ks \<and> incident c r k)) (connections (heap c r))\<rparr>"
proof (induction ks arbitrary: c)
  case Nil
  show ?case by simp
next
  case (Cons k ks)
  have "heap (fold (\<lambda>eid c'. delete_edge c' eid) (k # ks) c) r =
          heap (fold (\<lambda>eid c'. delete_edge c' eid) ks (delete_edge c k)) r"
    by simp
  also have "\<dots> = (heap (delete_edge c k) r)\<lparr>connections :=
        filter (\<lambda>k'. \<not> (k' \<in> set ks \<and> incident (delete_edge c k) r k'))
          (connections (heap (delete_edge c k) r))\<rparr>"
    by (rule Cons.IH)
  also have "\<dots> = (heap c r)\<lparr>connections :=
        filter (\<lambda>k'. \<not> (k' \<in> set (k # ks) \<and> incident c r k')) (connections (heap c r))\<rparr>"
  proof -
    have "(\<lambda>x. (x = k \<longrightarrow> \<not> incident c r k) \<and> (x \<in> set ks \<longrightarrow> x = k \<or> \<not> incident c r x))
        = (\<lambda>k'. k' \<noteq> k \<and> k' \<notin> set ks \<or> \<not> incident c r k')"
      by auto
    then show ?thesis
      by (simp add: delete_edge_heap incident_delete_edge)
  qed
  finally show ?case .
qed

lemma delete_node_connections:
  "heap (delete_node c r) r' =
     (heap c r')\<lparr>connections :=
        filter (\<lambda>k. \<not> (k \<in> set (connections (heap c r)) \<and> incident c r' k))
          (connections (heap c r'))\<rparr>"
  by (simp add: delete_node_heap fold_delete_edge_heap)

lemma delete_node_again:
  "delete_node (delete_node c r) r =
     (delete_node c r)\<lparr>app_log := app_log (delete_node c r) @ [''Deleted node '' @ node_id (heap c r)]\<rparr>"
proof -
  let ?c' = "delete_node c r"
  have sub: "set (connections (heap ?c' r)) \<subseteq> set (connections (heap c r))"
    by (simp add: delete_node_heap fold_delete_edge_conn_subset)
  have "\<forall>k\<in>set (connections (heap ?c' r)). map_of (edges ?c') k = None"
    using sub by (auto simp: delete_node_edges map_of_eq_None_iff)
  then have f: "fold (\<lambda>eid c'. delete_edge c' eid) (connections (heap ?c' r)) ?c' = ?c'"
    by (rule fold_delete_edge_absent)
  have i: "node_id (heap ?c' r) = node_id (heap c r)"
    by (simp add: delete_node_heap fold_delete_edge_node_id)
  have "node_id (heap c r) \<notin> fst ` set (nodes ?c')"
    by (simp add: delete_node_nodes delete_notin_dom)
  then show ?thesis
    unfolding delete_node_def[of ?c' r] Let_def f i by simp
qed


section \<open>The loops of \<^verbatim>\<open>load_from\<close>\<close>

lemma length_assigned_ids [simp]: "length (assigned_ids U k gs) = length gs"
  by (induction U k gs rule: assigned_ids.induct) auto

lemma id_or_uuid_eq:
  "id_or_uuid g c = (hd (assigned_ids (uuid_src c) (uuid_calls c) [g]),
                     c\<lparr>uuid_calls := uuid_calls c + uuid_draws [g]\<rparr>)"
  by (cases g) (auto simp: id_or_uuid_def uuid4_def)

lemma assigned_ids_Cons:
  "assigned_ids U k (g # gs) = hd (assigned_ids U k [g]) # assigned_ids U (k + uuid_draws [g]) gs"
  by (cases g) auto

lemma uuid_draws_Cons: "uuid_draws (g # gs) = uuid_draws [g] + uuid_draws gs"
  by (cases g) auto

text \<open>One step of the node loop.\<close>

lemma load_node_eq:
  "load_node (c, im) nd =
     (let i = hd (assigned_ids (uuid_src c) (uuid_calls c) [nd_id nd]);
          r = next_ref c;
          n = \<lparr>node_id = i, node_x = default 10 (nd_x nd), node_y = default 10 (nd_y nd),
               node_width = default 160 (nd_width nd), node_height = default 52 (nd_height nd),
               node_text = default ''New Node'' (nd_text nd),
               node_rect = next_item c, node_text_id = Suc (next_item c), connections = []\<rparr>
      in (c\<lparr>heap := (heap c)(r := n), next_ref := Suc r, next_item := Suc (Suc (next_item c)),
            nodes := AList.update i r (nodes c),
            uuid_calls := uuid_calls c + uuid_draws [nd_id nd]\<rparr>,
          AList.update i r im))"
  by (cases "nd_id nd")
     (simp_all add: load_node_def Node_init_def id_or_uuid_def uuid4_def Let_def default_def
        split: option.splits)

lemma load_nodes_simps [simp]:
  "load_nodes [] st = st"
  "load_nodes (nd # nds) st = load_nodes nds (load_node st nd)"
  by (simp_all add: load_nodes_def)

lemma load_nodes_frame:
  "load_nodes nds (c, im) = (c', im') \<Longrightarrow>
     next_ref c' = next_ref c + length nds \<and> edges c' = edges c \<and> app_log c' = app_log c
     \<and> uuid_src c' = uuid_src c \<and> uuid_calls c' = uuid_calls c + uuid_draws (map nd_id nds)
     \<and> selected_item c' = selected_item c \<and> temp_line c' = temp_line c
     \<and> button1 c' = button1 c \<and> motion c' = motion c
     \<and> (\<forall>r < next_ref c. heap c' r = heap c r)"
proof (induction nds arbitrary: c im)
  case Nil
  then show ?case by simp
next
  case (Cons nd nds)
  obtain c1 im1 where s: "load_node (c, im) nd = (c1, im1)" by force
  with Cons.prems have "load_nodes nds (c1, im1) = (c', im')" by simp
  from Cons.IH[OF this] s show ?case
    by (auto simp: load_node_eq Let_def uuid_draws_Cons[of "nd_id nd" "map nd_id nds"])
qed

lemma load_nodes_nodes:
  assumes "load_nodes nds (c, im) = (c', im')"
    and "distinct (assigned_ids (uuid_src c) (uuid_calls c) (map nd_id nds))"
    and "set (assigned_ids (uuid_src c) (uuid_calls c) (map nd_id nds)) \<inter> fst ` set (nodes c) = {}"
    and "im = nodes c"
  shows "nodes c' = nodes c @ zip (assigned_ids (uuid_src c) (uuid_calls c) (map nd_id nds))
                               [next_ref c ..< next_ref c + length nds]
       \<and> im' = nodes c'"
  using assms
proof (induction nds arbitrary: c im)
  case Nil
  then show ?case by auto
next
  case (Cons nd nds)
  let ?U = "uuid_src c" and ?k = "uuid_calls c"
  let ?i = "hd (assigned_ids ?U ?k [nd_id nd])"
  let ?k1 = "?k + uuid_draws [nd_id nd]"
  obtain c1 im1 where s: "load_node (c, im) nd = (c1, im1)" by force
  have ids: "assigned_ids ?U ?k (map nd_id (nd # nds)) = ?i # assigned_ids ?U ?k1 (map nd_id nds)"
    using assigned_ids_Cons[of ?U ?k "nd_id nd" "map nd_id nds"] by simp
  have fresh: "?i \<notin> fst ` set (nodes c)"
    using Cons.prems(3) unfolding ids by auto
  have c1: "nodes c1 = nodes c @ [(?i, next_ref c)]" "im1 = nodes c1"
    "uuid_src c1 = ?U" "uuid_calls c1 = ?k1" "next_ref c1 = Suc (next_ref c)"
    using s fresh Cons.prems(4) by (auto simp: load_node_eq Let_def update_fresh)
  have rest: "load_nodes nds (c1, im1) = (c', im')"
    using Cons.prems(1) s by simp
  have d: "distinct (assigned_ids (uuid_src c1) (uuid_calls c1) (map nd_id nds))"
    using Cons.prems(2) unfolding ids c1 by simp
  have dj: "set (assigned_ids (uuid_src c1) (uuid_calls c1) (map nd_id nds)) \<inter> fst ` set (nodes c1) = {}"
    using Cons.prems(2,3) unfolding ids c1 by auto
  from Cons.IH[OF rest d dj c1(2)]
  show ?case unfolding ids c1 length_Cons upt_first
    by simp
qed

lemma load_nodes_heap:
  assumes "load_nodes nds (c, im) = (c', im')"
  shows "map (\<lambda>r. Node_serialize (heap c' r)) [next_ref c ..< next_ref c + length nds]
           = map2 filled nds (assigned_ids (uuid_src c) (uuid_calls c) (map nd_id nds))
       \<and> map (\<lambda>r. node_id (heap c' r)) [next_ref c ..< next_ref c + length nds]
           = assigned_ids (uuid_src c) (uuid_calls c) (map nd_id nds)"
  using assms
proof (induction nds arbitrary: c im)
  case Nil
  then show ?case by simp
next
  case (Cons nd nds)
  let ?U = "uuid_src c" and ?k = "uuid_calls c"
  let ?i = "hd (assigned_ids ?U ?k [nd_id nd])"
  let ?k1 = "?k + uuid_draws [nd_id nd]"
  obtain c1 im1 where s: "load_node (c, im) nd = (c1, im1)" by force
  have ids: "assigned_ids ?U ?k (map nd_id (nd # nds)) = ?i # assigned_ids ?U ?k1 (map nd_id nds)"
    using assigned_ids_Cons[of ?U ?k "nd_id nd" "map nd_id nds"] by simp
  have c1: "uuid_src c1 = ?U" "uuid_calls c1 = ?k1" "next_ref c1 = Suc (next_ref c)"
    "Node_serialize (heap c1 (next_ref c)) = filled nd ?i" "node_id (heap c1 (next_ref c)) = ?i"
    using s by (auto simp: load_node_eq Let_def Node_serialize_def filled_def)
  have rest: "load_nodes nds (c1, im1) = (c', im')"
    using Cons.prems(1) s by simp
  have keep: "heap c' (next_ref c) = heap c1 (next_ref c)"
    using load_nodes_frame[OF rest] c1(3) by simp
  from Cons.IH[OF rest] keep
  show ?case unfolding ids c1 length_Cons upt_first
    by (simp add: c1)
qed


lemma load_edges_simps [simp]:
  "load_edges im [] c = c"
  "load_edges im (ed # eds) c = load_edges im eds (load_edge im c ed)"
  by (simp_all add: load_edges_def)

lemma lookup_id_resolves:
  "resolves (map fst im) ed \<longleftrightarrow>
     (\<exists>a b. lookup_id im (ed_a ed) = Some a \<and> lookup_id im (ed_b ed) = Some b)"
proof -
  have k: "\<And>k. k \<in> fst ` set im \<longleftrightarrow> (\<exists>r. map_of im k = Some r)"
    using map_of_eq_None_iff[of im] by (metis not_Some_eq)
  show ?thesis
    by (cases "ed_a ed"; cases "ed_b ed") (simp_all add: resolves_def lookup_id_def k)
qed

lemma Edge_init_eq:
  "Edge_init c a b g =
     (let i = hd (assigned_ids (uuid_src c) (uuid_calls c) [g]);
          h1 = (heap c)(a := (heap c a)\<lparr>connections := conn_add i (connections (heap c a))\<rparr>);
          h2 = h1(b := (h1 b)\<lparr>connections := conn_add i (connections (h1 b))\<rparr>)
      in (\<lparr>edge_id = i, edge_a = a, edge_b = b, edge_line = next_item c\<rparr>,
          c\<lparr>heap := h2, next_item := Suc (next_item c),
            uuid_calls := uuid_calls c + uuid_draws [g]\<rparr>))"
  by (cases g) (simp_all add: Edge_init_def id_or_uuid_def uuid4_def Let_def)

lemma load_edge_drop:
  "\<not> resolves (map fst im) ed \<Longrightarrow> load_edge im c ed = c"
  by (auto simp: load_edge_def lookup_id_resolves split: option.splits)

lemma load_edge_keep:
  assumes "lookup_id im (ed_a ed) = Some a" "lookup_id im (ed_b ed) = Some b"
  shows "load_edge im c ed =
     (let i = hd (assigned_ids (uuid_src c) (uuid_calls c) [ed_id ed]);
          h1 = (heap c)(a := (heap c a)\<lparr>connections := conn_add i (connections (heap c a))\<rparr>);
          h2 = h1(b := (h1 b)\<lparr>connections := conn_add i (connections (h1 b))\<rparr>)
      in c\<lparr>heap := h2, next_item := Suc (next_item c),
           uuid_calls := uuid_calls c + uuid_draws [ed_id ed],
           edges := AList.update i \<lparr>edge_id = i, edge_a = a, edge_b = b, edge_line = next_item c\<rparr>
                      (edges c)\<rparr>)"
  using assms by (simp add: load_edge_def Edge_init_eq Let_def)

text \<open>What a step of the edge loop leaves alone.\<close>

lemma load_edge_frame:
  "nodes (load_edge im c ed) = nodes c \<and> app_log (load_edge im c ed) = app_log c
   \<and> uuid_src (load_edge im c ed) = uuid_src c \<and> next_ref (load_edge im c ed) = next_ref c
   \<and> selected_item (load_edge im c ed) = selected_item c
   \<and> temp_line (load_edge im c ed) = temp_line c
   \<and> button1 (load_edge im c ed) = button1 c \<and> motion (load_edge im c ed) = motion c
   \<and> Node_serialize (heap (load_edge im c ed) r) = Node_serialize (heap c r)
   \<and> node_id (heap (load_edge im c ed) r) = node_id (heap c r)"
proof (cases "resolves (map fst im) ed")
  case False
  then show ?thesis by (simp add: load_edge_drop)
next
  case True
  then obtain a b where "lookup_id im (ed_a ed) = Some a" "lookup_id im (ed_b ed) = Some b"
    by (auto simp: lookup_id_resolves)
  from load_edge_keep[OF this] show ?thesis
    by (simp add: Let_def Node_serialize_def)
qed

lemma load_edges_frame:
  "nodes (load_edges im eds c) = nodes c \<and> app_log (load_edges im eds c) = app_log c
   \<and> uuid_src (load_edges im eds c) = uuid_src c \<and> next_ref (load_edges im eds c) = next_ref c
   \<and> selected_item (load_edges im eds c) = selected_item c
   \<and> temp_line (load_edges im eds c) = temp_line c
   \<and> button1 (load_edges im eds c) = button1 c \<and> motion (load_edges im eds c) = motion c
   \<and> Node_serialize (heap (load_edges im eds c) r) = Node_serialize (heap c r)
   \<and> node_id (heap (load_edges im eds c) r) = node_id (heap c r)"
  by (induction eds arbitrary: c) (simp_all add: load_edge_frame)

lemma Edge_serialize_cong:
  "(\<And>r. node_id (heap c' r) = node_id (heap c r)) \<Longrightarrow> Edge_serialize c' e = Edge_serialize c e"
  by (simp add: Edge_serialize_def)

lemma lookup_id_SomeD:
  "lookup_id im x = Some r \<Longrightarrow> \<exists>k. x = Some k \<and> (k, r) \<in> set im"
  by (auto simp: lookup_id_def split: option.splits dest: map_of_SomeD)

lemma load_edges_edges:
  assumes "distinct (assigned_ids (uuid_src c) (uuid_calls c)
                      (map ed_id (filter (resolves (map fst im)) eds)))"
    and "set (assigned_ids (uuid_src c) (uuid_calls c)
                      (map ed_id (filter (resolves (map fst im)) eds))) \<inter> fst ` set (edges c) = {}"
    and "\<forall>(k, r) \<in> set im. node_id (heap c r) = k"
  shows "map (\<lambda>(k, e). Edge_serialize (load_edges im eds c) e) (edges (load_edges im eds c))
           = map (\<lambda>(k, e). Edge_serialize c e) (edges c)
             @ map2 (\<lambda>ed i. ed\<lparr>ed_id := Some i\<rparr>) (filter (resolves (map fst im)) eds)
                 (assigned_ids (uuid_src c) (uuid_calls c)
                      (map ed_id (filter (resolves (map fst im)) eds)))
       \<and> map fst (edges (load_edges im eds c))
           = map fst (edges c) @ assigned_ids (uuid_src c) (uuid_calls c)
                      (map ed_id (filter (resolves (map fst im)) eds))"
  using assms
proof (induction eds arbitrary: c)
  case Nil
  then show ?case by simp
next
  case (Cons ed eds)
  let ?c1 = "load_edge im c ed"
  have ids1: "\<forall>(k, r) \<in> set im. node_id (heap ?c1 r) = k"
    using Cons.prems(3) by (simp add: load_edge_frame)
  have ser1: "\<And>e. Edge_serialize ?c1 e = Edge_serialize c e"
    by (rule Edge_serialize_cong) (simp add: load_edge_frame)
  show ?case
  proof (cases "resolves (map fst im) ed")
    case False
    then have same: "?c1 = c" by (simp add: load_edge_drop)
    from Cons.IH[of c] Cons.prems False show ?thesis
      by (simp add: same)
  next
    case True
    let ?U = "uuid_src c" and ?k = "uuid_calls c"
    let ?i = "hd (assigned_ids ?U ?k [ed_id ed])"
    let ?k1 = "?k + uuid_draws [ed_id ed]"
    let ?rest = "filter (resolves (map fst im)) eds"
    from True obtain a b where ab: "lookup_id im (ed_a ed) = Some a" "lookup_id im (ed_b ed) = Some b"
      by (auto simp: lookup_id_resolves)
    have ids: "assigned_ids ?U ?k (map ed_id (filter (resolves (map fst im)) (ed # eds)))
                 = ?i # assigned_ids ?U ?k1 (map ed_id ?rest)"
      using True assigned_ids_Cons[of ?U ?k "ed_id ed" "map ed_id ?rest"] by simp
    have fresh: "?i \<notin> fst ` set (edges c)"
      using Cons.prems(2) unfolding ids by auto
    let ?e = "\<lparr>edge_id = ?i, edge_a = a, edge_b = b, edge_line = next_item c\<rparr>"
    have c1: "edges ?c1 = edges c @ [(?i, ?e)]" "uuid_src ?c1 = ?U" "uuid_calls ?c1 = ?k1"
      using fresh by (simp_all add: load_edge_keep[OF ab] Let_def update_fresh)
    from ab obtain ka kb where k: "ed_a ed = Some ka" "(ka, a) \<in> set im" "ed_b ed = Some kb" "(kb, b) \<in> set im"
      by (auto dest!: lookup_id_SomeD)
    with Cons.prems(3) have "node_id (heap c a) = ka" "node_id (heap c b) = kb" by auto
    with k have new: "Edge_serialize c ?e = ed\<lparr>ed_id := Some ?i\<rparr>"
      by (simp add: Edge_serialize_def)
    have d: "distinct (assigned_ids (uuid_src ?c1) (uuid_calls ?c1) (map ed_id ?rest))"
      using Cons.prems(1) unfolding ids c1 by simp
    have dj: "set (assigned_ids (uuid_src ?c1) (uuid_calls ?c1) (map ed_id ?rest)) \<inter> fst ` set (edges ?c1) = {}"
      using Cons.prems(1,2) unfolding ids c1 by auto
    have ser: "\<And>e. Edge_serialize (load_edges im eds ?c1) e = Edge_serialize c e"
      by (rule Edge_serialize_cong) (simp add: load_edges_frame load_edge_frame)
    from Cons.IH[OF d dj ids1]
    show ?thesis
      unfolding load_edges_simps ids c1 using True
      by (simp add: ser ser1 new)
  qed
qed


section \<open>Loading a document, then serializing\<close>


lemma map_snd_zip_case:
  "length xs = length ys \<Longrightarrow> map (\<lambda>(k, r). f r) (zip xs ys) = map f ys"
  by (induction xs ys rule: list_induct2) auto

lemma zip_ids_correct:
  assumes "map g rs = ks"
  shows "\<forall>(k, r) \<in> set (zip ks rs). g r = k"
  using assms by (auto simp: in_set_zip)

lemma load_from_serialize:
  fixes c :: canvas and data :: document
  defines "nds \<equiv> default [] (doc_nodes data)"
    and "eds \<equiv> default [] (doc_edges data)"
  defines "ids \<equiv> assigned_ids (uuid_src c) (uuid_calls c) (map nd_id nds)"
  defines "kept \<equiv> filter (resolves ids) eds"
  defines "eids \<equiv> assigned_ids (uuid_src c) (uuid_calls c + uuid_draws (map nd_id nds)) (map ed_id kept)"
  assumes d1: "distinct ids" and d2: "distinct eids"
  shows "serialize (load_from c data) =
           \<lparr>doc_nodes = Some (map2 filled nds ids),
            doc_edges = Some (map2 (\<lambda>ed i. ed\<lparr>ed_id := Some i\<rparr>) kept eids)\<rparr>"
    and "map fst (nodes (load_from c data)) = ids"
    and "map fst (edges (load_from c data)) = eids"
    and "app_log (load_from c data) = app_log c"
proof -
  obtain c1 im where ln: "load_nodes nds (clear c, []) = (c1, im)" by force
  have lf: "load_from c data = load_edges im eds c1"
    using ln by (simp add: load_from_def nds_def eds_def)
  have cl: "uuid_src (clear c) = uuid_src c" "uuid_calls (clear c) = uuid_calls c"
    "nodes (clear c) = []" "edges (clear c) = []" "app_log (clear c) = app_log c"
    by (simp_all add: clear_def)
  let ?refs = "[next_ref (clear c) ..< next_ref (clear c) + length nds]"
  have fr: "edges c1 = []" "app_log c1 = app_log c" "uuid_src c1 = uuid_src c"
    "uuid_calls c1 = uuid_calls c + uuid_draws (map nd_id nds)"
    using load_nodes_frame[OF ln] by (simp_all add: cl)
  have n1: "nodes c1 = zip ids ?refs" "im = nodes c1"
    using load_nodes_nodes[OF ln] d1 by (simp_all add: cl ids_def)
  have h1: "map (\<lambda>r. Node_serialize (heap c1 r)) ?refs = map2 filled nds ids"
    "map (\<lambda>r. node_id (heap c1 r)) ?refs = ids"
    using load_nodes_heap[OF ln] by (simp_all add: cl ids_def)
  have len: "length ids = length ?refs" by (simp add: ids_def)
  have keys: "map fst im = ids"
    using len by (simp add: n1)
  have imok: "\<forall>(k, r) \<in> set im. node_id (heap c1 r) = k"
    unfolding n1 using zip_ids_correct[OF h1(2)] .
  have e1: "distinct (assigned_ids (uuid_src c1) (uuid_calls c1)
                      (map ed_id (filter (resolves (map fst im)) eds)))"
    using d2 by (simp add: fr keys eids_def kept_def)
  have e2: "set (assigned_ids (uuid_src c1) (uuid_calls c1)
                      (map ed_id (filter (resolves (map fst im)) eds))) \<inter> fst ` set (edges c1) = {}"
    by (simp add: fr)
  have ee: "map (\<lambda>(k, e). Edge_serialize (load_edges im eds c1) e) (edges (load_edges im eds c1))
              = map2 (\<lambda>ed i. ed\<lparr>ed_id := Some i\<rparr>) kept eids"
    "map fst (edges (load_edges im eds c1)) = eids"
    using load_edges_edges[OF e1 e2 imok] by (simp_all add: fr keys eids_def kept_def)
  have nn: "map (\<lambda>(k, r). Node_serialize (heap (load_edges im eds c1) r)) (nodes (load_edges im eds c1))
              = map2 filled nds ids"
    using h1(1) len by (simp add: load_edges_frame n1 map_snd_zip_case)
  show "serialize (load_from c data) =
           \<lparr>doc_nodes = Some (map2 filled nds ids),
            doc_edges = Some (map2 (\<lambda>ed i. ed\<lparr>ed_id := Some i\<rparr>) kept eids)\<rparr>"
    unfolding lf serialize_def using nn ee(1) by simp
  show "map fst (nodes (load_from c data)) = ids"
    unfolding lf using keys by (simp add: load_edges_frame n1)
  show "map fst (edges (load_from c data)) = eids"
    unfolding lf by (rule ee(2))
  show "app_log (load_from c data) = app_log c"
    unfolding lf by (simp add: load_edges_frame fr)
qed


lemma assigned_ids_given:
  "list_all (\<lambda>k. k \<noteq> []) ks \<Longrightarrow>
     assigned_ids U k (map Some ks) = ks \<and> uuid_draws (map Some ks) = 0"
  by (induction ks) auto

lemma map2_same: "map2 f (map g xs) (map h xs) = map (\<lambda>x. f (g x) (h x)) xs"
  by (induction xs) auto

lemma filled_serialize: "filled (Node_serialize n) (node_id n) = Node_serialize n"
  by (simp add: filled_def Node_serialize_def default_def)


section \<open>The example diagram\<close>

lemmas canvas_defs = MindMapCanvas_init_def unallocated_def on_double_def Node_init_def id_or_uuid_def
  uuid4_def on_click_def load_from_def load_nodes_def load_edges_def load_node_def load_edge_def
  clear_def default_def start_connection_def finish_connection_def Edge_init_def conn_add_def
  lookup_id_def serialize_def Node_serialize_def Edge_serialize_def demo_uuids_def Let_def
  delete_node_def delete_edge_def conn_discard_def on_drag_def


lemma demo_canvas_eval:
  "nodes demo_canvas = [(''u'', 0), (''ux'', Suc 0)]
   \<and> edges demo_canvas = [(''uxx'', \<lparr>edge_id = ''uxx'', edge_a = 0, edge_b = Suc 0, edge_line = 5\<rparr>)]
   \<and> heap demo_canvas 0 = \<lparr>node_id = ''u'', node_x = 10, node_y = 10, node_width = 160,
        node_height = 52, node_text = ''New Node'', node_rect = 1, node_text_id = 2,
        connections = [''uxx'']\<rparr>
   \<and> heap demo_canvas (Suc 0) = \<lparr>node_id = ''ux'', node_x = 200, node_y = 10, node_width = 160,
        node_height = 52, node_text = ''New Node'', node_rect = 3, node_text_id = 4,
        connections = [''uxx'']\<rparr>"
  by (simp add: demo_canvas_def demo_connecting_def canvas_defs)

lemma demo_wf:
  "wf_nodes demo_canvas \<and> wf_edges demo_canvas \<and> ids_truthy demo_canvas \<and> resolvable demo_canvas"
  by (simp add: wf_nodes_def wf_edges_def ids_truthy_def resolvable_def demo_canvas_eval)

section \<open>Connecting two nodes\<close>

lemma node_of_item_mem: "node_of_item h it ns = Some n \<Longrightarrow> n \<in> set ns"
  by (induction ns) (auto split: if_splits)

lemma find_target_mem: "find_target c its = Some n \<Longrightarrow> n \<in> snd ` set (nodes c)"
  by (induction its) (auto split: option.splits dest: node_of_item_mem)

text \<open>
  Connecting mode: the Connect command with a selection binds \<^verbatim>\<open>finish_connection\<close> to
  \<^verbatim>\<open><Button-1>\<close> and keeps the selection, and so does every pointer motion after it.
\<close>

lemma start_connection_connecting:
  "selected_item c = Some s \<Longrightarrow>
     button1 (start_connection c) = Finish_connection \<and> selected_item (start_connection c) = Some s
     \<and> nodes (start_connection c) = nodes c \<and> edges (start_connection c) = edges c
     \<and> heap (start_connection c) = heap c"
  by (simp add: start_connection_def)

lemma follow_mouse_connecting:
  "selected_item c = Some s \<Longrightarrow>
     \<exists>c'. follow_mouse c = Inr c' \<and> button1 c' = button1 c \<and> selected_item c' = Some s
       \<and> nodes c' = nodes c \<and> edges c' = edges c \<and> heap c' = heap c
       \<and> temp_line c' = Some (next_item c)"
  by (simp add: follow_mouse_def)



text \<open>
  The statement is about the click as the canvas receives it, with the source still selected.
  The rectangle and the text of a node carry a binding of their own, \<^verbatim>\<open>Node.on_click\<close>; were that
  binding run for the target before \<^verbatim>\<open>finish_connection\<close>, the target would be the selection
  and the connection would be given up. Which bindings Tk runs for a click is decided by the
  item under the pointer (in connecting mode the provisional line ends there) and is not part
  of the source.
\<close>

lemma find_target_on_click: "find_target (on_click c r) items = find_target c items"
  by (induction items) (simp_all add: on_click_def split: option.splits)

lemma finish_connection_after_on_click:
  assumes "find_target c items = Some t"
  shows "\<exists>c'. finish_connection (on_click c t) items = Inr c' \<and> edges c' = edges c
           \<and> selected_item c' = Some t"
proof -
  have "find_target (on_click c t) items = selected_item (on_click c t)"
    using assms by (simp add: find_target_on_click) (simp add: on_click_def)
  then have "finish_connection (on_click c t) items =
       Inr ((on_click c t)\<lparr>app_log := app_log (on_click c t) @ [''Connection aborted or clicked same node.''],
              temp_line := None, motion := False, button1 := On_single\<rparr>)"
    by (cases "find_target (on_click c t) items"; cases "selected_item (on_click c t)")
       (auto simp: finish_connection_def Let_def)
  then show ?thesis by (simp add: on_click_def)
qed

section \<open>Deleting a node\<close>

lemma length_delete_present:
  "distinct (map fst al) \<Longrightarrow> k \<in> fst ` set al \<Longrightarrow> Suc (length (AList.delete k al)) = length al"
  by (induction al) (auto simp: delete_id)

text \<open>
  Deleting a node of the diagram. In a well-formed canvas, deleting a node \<open>r\<close> of the diagram
  removes exactly that node from the node dictionary and every edge whose id is in the node's
  \<^verbatim>\<open>connections\<close> from the edge dictionary; every object of the store keeps all its fields
  but \<^verbatim>\<open>connections\<close>, which lose exactly the ids of the removed edges that have the object
  as an end point; no edge that is left has \<open>r\<close> as an end point. Deleting the same node once
  more changes neither dictionary nor any node (it only logs once more).
\<close>

lemma delete_node_cascade:
  assumes wn: "wf_nodes c" and we: "wf_edges c" and present: "r \<in> snd ` set (nodes c)"
  shows "r \<notin> snd ` set (nodes (delete_node c r))
     \<and> nodes (delete_node c r) = AList.delete (node_id (heap c r)) (nodes c)
     \<and> Suc (length (nodes (delete_node c r))) = length (nodes c)
     \<and> edges (delete_node c r) = filter (\<lambda>p. fst p \<notin> set (connections (heap c r))) (edges c)
     \<and> (\<forall>(k, e) \<in> set (edges c). k \<in> set (connections (heap c r)) \<longrightarrow>
           k \<notin> set (connections (heap (delete_node c r) (edge_a e))) \<and>
           k \<notin> set (connections (heap (delete_node c r) (edge_b e))))
     \<and> (\<forall>r'. heap (delete_node c r) r' =
           (heap c r')\<lparr>connections :=
              filter (\<lambda>k. \<not> (k \<in> set (connections (heap c r)) \<and> incident c r' k))
                (connections (heap c r'))\<rparr>)
     \<and> (\<forall>(k, e) \<in> set (edges (delete_node c r)). edge_a e \<noteq> r \<and> edge_b e \<noteq> r)
     \<and> nodes (delete_node (delete_node c r) r) = nodes (delete_node c r)
     \<and> edges (delete_node (delete_node c r) r) = edges (delete_node c r)
     \<and> heap (delete_node (delete_node c r) r) = heap (delete_node c r)"
proof -
  let ?c' = "delete_node c r"
  have ids: "\<And>k r'. (k, r') \<in> set (nodes c) \<Longrightarrow> node_id (heap c r') = k"
    using wn by (auto simp: wf_nodes_def list_all_iff)
  have gone: "r \<notin> snd ` set (nodes ?c')"
  proof
    assume "r \<in> snd ` set (nodes ?c')"
    then obtain k where k: "(k, r) \<in> set (nodes ?c')" by force
    then have "(k, r) \<in> set (nodes c)" and "k \<noteq> node_id (heap c r)"
      by (auto simp: delete_node_nodes AList.delete_eq)
    with ids show False by blast
  qed
  from present obtain k0 where "(k0, r) \<in> set (nodes c)" by force
  with ids have "node_id (heap c r) \<in> fst ` set (nodes c)" by force
  moreover have "distinct (map fst (nodes c))" using wn by (simp add: wf_nodes_def)
  ultimately have len: "Suc (length (nodes ?c')) = length (nodes c)"
    by (simp add: delete_node_nodes length_delete_present)
  have dist: "distinct (map fst (edges c))"
    using we by (simp add: wf_edges_def)
  have upd: "\<forall>(k, e) \<in> set (edges c). k \<in> set (connections (heap c r)) \<longrightarrow>
           k \<notin> set (connections (heap ?c' (edge_a e))) \<and>
           k \<notin> set (connections (heap ?c' (edge_b e)))"
    using fold_delete_edge_discards[OF dist] by (auto simp: delete_node_heap)
  have inc: "\<And>k e. (k, e) \<in> set (edges c) \<Longrightarrow> edge_a e = r \<or> edge_b e = r \<Longrightarrow>
                k \<in> set (connections (heap c r))"
    using we by (auto simp: wf_edges_def list_all_iff)
  have noref: "\<forall>(k, e) \<in> set (edges ?c'). edge_a e \<noteq> r \<and> edge_b e \<noteq> r"
    using inc by (auto simp: delete_node_edges)
  have conn: "\<forall>r'. heap ?c' r' =
           (heap c r')\<lparr>connections :=
              filter (\<lambda>k. \<not> (k \<in> set (connections (heap c r)) \<and> incident c r' k))
                (connections (heap c r'))\<rparr>"
    by (simp add: delete_node_connections)
  have again: "nodes (delete_node ?c' r) = nodes ?c'" "edges (delete_node ?c' r) = edges ?c'"
    "heap (delete_node ?c' r) = heap ?c'"
    by (simp_all add: delete_node_again)
  have "edges ?c' = filter (\<lambda>p. fst p \<notin> set (connections (heap c r))) (edges c)"
    by (rule delete_node_edges)
  moreover have "nodes ?c' = AList.delete (node_id (heap c r)) (nodes c)"
    by (rule delete_node_nodes)
  ultimately show ?thesis
    using gone upd noref len conn again by blast
qed

lemma delete_node_cascade_example:
  "wf_nodes demo_canvas \<and> wf_edges demo_canvas \<and> 0 \<in> snd ` set (nodes demo_canvas)
   \<and> nodes (delete_node demo_canvas 0) = [(''ux'', Suc 0)]
   \<and> edges (delete_node demo_canvas 0) = []
   \<and> connections (heap (delete_node demo_canvas 0) (Suc 0)) = []
   \<and> nodes (delete_node (delete_node demo_canvas 0) 0) = nodes (delete_node demo_canvas 0)"
proof -
  have h1: "wf_nodes demo_canvas" and h2: "wf_edges demo_canvas"
    by (simp_all add: demo_wf)
  have h3: "0 \<in> snd ` set (nodes demo_canvas)"
    by (simp add: demo_canvas_eval)
  have conn: "connections (heap (delete_node demo_canvas 0) (Suc 0)) = []"
    by (simp add: delete_node_def delete_edge_def conn_discard_def Let_def demo_canvas_eval)
  from delete_node_cascade[OF h1 h2 h3] h1 h2 h3 conn
  show ?thesis by (simp add: demo_canvas_eval)
qed

text \<open>
  Claim C3 (the code departs from it). \<^verbatim>\<open>delete_node\<close> deletes every edge whose id is in the
  \<^verbatim>\<open>connections\<close> of the object it is given before it looks whether that object's id is in the
  diagram, and \<^verbatim>\<open>clear\<close> leaves the selection as it is. After a node \<open>A\<close> with an edge \<open>e1\<close> has
  been selected and another document has been opened (nodes \<open>C\<close> and \<open>D\<close>, joined by an edge
  with the id \<open>e1\<close>), the id \<open>A\<close> is not in the diagram, and the Delete key is not the no-op
  the claim says it is: it removes the edge between \<open>C\<close> and \<open>D\<close> and takes its id out of the
  \<^verbatim>\<open>connections\<close> of both.
\<close>

theorem on_delete_key_stale_selection:
  "nodes stale_delete = [(''C'', 2), (''D'', 3)]
   \<and> selected_item stale_delete = Some 0 \<and> node_id (heap stale_delete 0) = ''A''
   \<and> ''A'' \<notin> fst ` set (nodes stale_delete)
   \<and> doc_edges (serialize stale_delete)
        = Some [\<lparr>ed_id = Some ''e1'', ed_a = Some ''C'', ed_b = Some ''D''\<rparr>]
   \<and> nodes (on_delete_key stale_delete) = [(''C'', 2), (''D'', 3)]
   \<and> edges (on_delete_key stale_delete) = []
   \<and> connections (heap (on_delete_key stale_delete) 2) = []
   \<and> connections (heap (on_delete_key stale_delete) 3) = []
   \<and> doc_edges (serialize (on_delete_key stale_delete)) = Some []"
  by (simp add: stale_delete_def ab_doc_def cd_doc_def canvas_defs on_delete_key_def
        numeral_2_eq_2 numeral_3_eq_3)

section \<open>Dragging a node\<close>

text \<open>
  Claim C9. Dragging the node \<open>r\<close> (the event at \<open>(ex, ey)\<close> moves it to
  \<open>(ex - width / 2, ey - height / 2)\<close>) changes nothing but the \<^verbatim>\<open>x\<close> and \<^verbatim>\<open>y\<close> of that node:
  the serialized edges, with their end point ids, are the same as before, both dictionaries and
  every other part of the canvas are unchanged, every other node is unchanged, and the node
  itself keeps its id, text, size and \<^verbatim>\<open>connections\<close>.
\<close>

theorem on_drag_moves_only_the_node:
  "doc_edges (serialize (on_drag c r ex ey)) = doc_edges (serialize c)
   \<and> (on_drag c r ex ey)\<lparr>heap := heap c\<rparr> = c
   \<and> (\<forall>r'. r' \<noteq> r \<longrightarrow> heap (on_drag c r ex ey) r' = heap c r')
   \<and> heap (on_drag c r ex ey) r =
        (heap c r)\<lparr>node_x := ex - node_width (heap c r) / 2, node_y := ey - node_height (heap c r) / 2\<rparr>"
  by (auto simp add: on_drag_def serialize_def Edge_serialize_def Let_def)

theorem on_drag_moves_only_the_node_witness:
  "Suc 0 \<noteq> 0 \<and> heap (on_drag demo_canvas 0 130 126) (Suc 0) = heap demo_canvas (Suc 0)
   \<and> node_x (heap (on_drag demo_canvas 0 130 126) 0) = 50
   \<and> node_y (heap (on_drag demo_canvas 0 130 126) 0) = 100
   \<and> doc_edges (serialize (on_drag demo_canvas 0 130 126))
       = Some [\<lparr>ed_id = Some ''uxx'', ed_a = Some ''u'', ed_b = Some ''ux''\<rparr>]"
proof -
  have h: "Suc 0 \<noteq> 0" by simp
  have e: "doc_edges (serialize demo_canvas)
             = Some [\<lparr>ed_id = Some ''uxx'', ed_a = Some ''u'', ed_b = Some ''ux''\<rparr>]"
    by (simp add: serialize_def Edge_serialize_def demo_canvas_eval)
  from on_drag_moves_only_the_node[of demo_canvas 0 130 126] h e
  show ?thesis by (simp add: demo_canvas_eval)
qed


section \<open>Serializing, loading and serializing again\<close>

text \<open>
  Claim C4. For a well-formed canvas whose ids are not empty and whose edges' end points carry
  ids of nodes of the diagram, loading the serialized diagram (into any canvas \<open>c0\<close>) and
  serializing again gives the same document: the same node entries (id, position, text, size)
  and the same edge entries (id and end point ids), in the same order. End points need not be
  distinct for this.
\<close>

theorem serialize_load_from_roundtrip:
  assumes wn: "wf_nodes c" and we: "wf_edges c" and tr: "ids_truthy c" and rs: "resolvable c"
  shows "serialize (load_from c0 (serialize c)) = serialize c"
proof -
  let ?nds = "map (\<lambda>(k, r). Node_serialize (heap c r)) (nodes c)"
  let ?eds = "map (\<lambda>(k, e). Edge_serialize c e) (edges c)"
  have dn: "default [] (doc_nodes (serialize c)) = ?nds"
    and de: "default [] (doc_edges (serialize c)) = ?eds"
    by (simp_all add: serialize_def default_def)
  have nid: "\<And>k r. (k, r) \<in> set (nodes c) \<Longrightarrow> node_id (heap c r) = k"
    using wn by (auto simp: wf_nodes_def list_all_iff)
  have eid: "\<And>k e. (k, e) \<in> set (edges c) \<Longrightarrow> edge_id e = k"
    using we by (auto simp: wf_edges_def list_all_iff)
  have given_n: "map nd_id ?nds = map Some (map fst (nodes c))"
    using nid by (auto simp: Node_serialize_def)
  have given_e: "map ed_id ?eds = map Some (map fst (edges c))"
    using eid by (auto simp: Edge_serialize_def)
  have tn: "list_all (\<lambda>k. k \<noteq> []) (map fst (nodes c))"
    and te: "list_all (\<lambda>k. k \<noteq> []) (map fst (edges c))"
    using tr by (simp_all add: ids_truthy_def)
  have ids: "assigned_ids (uuid_src c0) (uuid_calls c0) (map nd_id ?nds) = map fst (nodes c)"
    and draws: "uuid_draws (map nd_id ?nds) = 0"
    by (simp_all only: given_n assigned_ids_given[OF tn])
  have res: "\<And>k e. (k, e) \<in> set (edges c) \<Longrightarrow>
                 node_id (heap c (edge_a e)) \<in> fst ` set (nodes c)
               \<and> node_id (heap c (edge_b e)) \<in> fst ` set (nodes c)"
    using rs by (auto simp: resolvable_def list_all_iff)
  have all_res: "filter (resolves (map fst (nodes c))) ?eds = ?eds"
    using res by (auto simp: resolves_def Edge_serialize_def intro!: filter_True)
  have eids: "assigned_ids (uuid_src c0) (uuid_calls c0) (map ed_id ?eds) = map fst (edges c)"
    by (simp only: given_e assigned_ids_given[OF te])
  have d1: "distinct (map fst (nodes c))" using wn by (simp add: wf_nodes_def)
  have d2: "distinct (map fst (edges c))" using we by (simp add: wf_edges_def)
  have fn: "map2 filled ?nds (map fst (nodes c)) = ?nds"
    unfolding map2_same
  proof (rule map_cong[OF refl])
    fix x assume x: "x \<in> set (nodes c)"
    obtain k r where kr: "x = (k, r)" by (cases x)
    with x nid have "node_id (heap c r) = k" by simp
    with kr show "filled ((\<lambda>(k, r). Node_serialize (heap c r)) x) (fst x)
                    = (\<lambda>(k, r). Node_serialize (heap c r)) x"
      using filled_serialize[of "heap c r"] by simp
  qed
  have fe: "map2 (\<lambda>ed i. ed\<lparr>ed_id := Some i\<rparr>) ?eds (map fst (edges c)) = ?eds"
    unfolding map2_same
  proof (rule map_cong[OF refl])
    fix x assume x: "x \<in> set (edges c)"
    obtain k e where ke: "x = (k, e)" by (cases x)
    with x eid have "edge_id e = k" by simp
    with ke show "((\<lambda>(k, e). Edge_serialize c e) x)\<lparr>ed_id := Some (fst x)\<rparr>
                    = (\<lambda>(k, e). Edge_serialize c e) x"
      by (simp add: Edge_serialize_def)
  qed
  have "serialize (load_from c0 (serialize c)) =
          \<lparr>doc_nodes = Some ?nds, doc_edges = Some ?eds\<rparr>"
    using load_from_serialize(1)[of c0 "serialize c"] d1 d2
    unfolding dn de ids draws add_0_right all_res eids fn fe by simp
  then show ?thesis by (simp add: serialize_def)
qed

theorem serialize_load_from_roundtrip_witness:
  "wf_nodes demo_canvas \<and> wf_edges demo_canvas \<and> ids_truthy demo_canvas \<and> resolvable demo_canvas
   \<and> serialize (load_from (MindMapCanvas_init demo_uuids) (serialize demo_canvas)) =
       \<lparr>doc_nodes = Some [\<lparr>nd_id = Some ''u'', nd_x = Some 10, nd_y = Some 10,
                            nd_text = Some ''New Node'', nd_width = Some 160, nd_height = Some 52\<rparr>,
                          \<lparr>nd_id = Some ''ux'', nd_x = Some 200, nd_y = Some 10,
                            nd_text = Some ''New Node'', nd_width = Some 160, nd_height = Some 52\<rparr>],
        doc_edges = Some [\<lparr>ed_id = Some ''uxx'', ed_a = Some ''u'', ed_b = Some ''ux''\<rparr>]\<rparr>"
proof -
  have h1: "wf_nodes demo_canvas" and h2: "wf_edges demo_canvas"
    and h3: "ids_truthy demo_canvas" and h4: "resolvable demo_canvas"
    by (simp_all add: demo_wf)
  have s: "serialize demo_canvas =
       \<lparr>doc_nodes = Some [\<lparr>nd_id = Some ''u'', nd_x = Some 10, nd_y = Some 10,
                            nd_text = Some ''New Node'', nd_width = Some 160, nd_height = Some 52\<rparr>,
                          \<lparr>nd_id = Some ''ux'', nd_x = Some 200, nd_y = Some 10,
                            nd_text = Some ''New Node'', nd_width = Some 160, nd_height = Some 52\<rparr>],
        doc_edges = Some [\<lparr>ed_id = Some ''uxx'', ed_a = Some ''u'', ed_b = Some ''ux''\<rparr>]\<rparr>"
    by (simp add: serialize_def Node_serialize_def Edge_serialize_def demo_canvas_eval)
  from serialize_load_from_roundtrip[OF h1 h2 h3 h4, of "MindMapCanvas_init demo_uuids"]
  have "serialize (load_from (MindMapCanvas_init demo_uuids) (serialize demo_canvas))
          = serialize demo_canvas" .
  with s h1 h2 h3 h4 show ?thesis by simp
qed

section \<open>Documents with missing keys, repeated ids or self-loops\<close>

lemma load_nodes_map_of:
  "load_nodes nds (c, im) = (c', im') \<Longrightarrow>
     map_of (nodes c') =
       (map_of (nodes c))(assigned_ids (uuid_src c) (uuid_calls c) (map nd_id nds)
                            [\<mapsto>] [next_ref c ..< next_ref c + length nds])"
proof (induction nds arbitrary: c im)
  case Nil
  then show ?case by auto
next
  case (Cons nd nds)
  let ?U = "uuid_src c" and ?k = "uuid_calls c"
  let ?i = "hd (assigned_ids ?U ?k [nd_id nd])"
  let ?k1 = "?k + uuid_draws [nd_id nd]"
  obtain c1 im1 where s: "load_node (c, im) nd = (c1, im1)" by force
  have ids: "assigned_ids ?U ?k (map nd_id (nd # nds)) = ?i # assigned_ids ?U ?k1 (map nd_id nds)"
    using assigned_ids_Cons[of ?U ?k "nd_id nd" "map nd_id nds"] by simp
  have c1: "nodes c1 = AList.update ?i (next_ref c) (nodes c)"
    "uuid_src c1 = ?U" "uuid_calls c1 = ?k1" "next_ref c1 = Suc (next_ref c)"
    using s by (auto simp: load_node_eq Let_def)
  have rest: "load_nodes nds (c1, im1) = (c', im')"
    using Cons.prems s by simp
  have "map_of (nodes c') =
          ((map_of (nodes c))(?i \<mapsto> next_ref c))
            (assigned_ids ?U ?k1 (map nd_id nds) [\<mapsto>] [Suc (next_ref c) ..< Suc (next_ref c) + length nds])"
    using Cons.IH[OF rest] unfolding c1 update_conv' .
  then show ?case
    unfolding ids length_Cons upt_first map_upds_Cons .
qed

lemma load_nodes_keys:
  "load_nodes nds (c, im) = (c', im') \<Longrightarrow>
     fst ` set (nodes c') =
         fst ` set (nodes c) \<union> set (assigned_ids (uuid_src c) (uuid_calls c) (map nd_id nds))"
proof (induction nds arbitrary: c im)
  case Nil
  then show ?case by auto
next
  case (Cons nd nds)
  let ?U = "uuid_src c" and ?k = "uuid_calls c"
  let ?i = "hd (assigned_ids ?U ?k [nd_id nd])"
  let ?k1 = "?k + uuid_draws [nd_id nd]"
  obtain c1 im1 where s: "load_node (c, im) nd = (c1, im1)" by force
  have ids: "assigned_ids ?U ?k (map nd_id (nd # nds)) = ?i # assigned_ids ?U ?k1 (map nd_id nds)"
    using assigned_ids_Cons[of ?U ?k "nd_id nd" "map nd_id nds"] by simp
  have n1: "nodes c1 = AList.update ?i (next_ref c) (nodes c)"
    and u1: "uuid_src c1 = ?U" "uuid_calls c1 = ?k1"
    using s by (auto simp: load_node_eq Let_def)
  have c1: "fst ` set (nodes c1) = {?i} \<union> fst ` set (nodes c)"
    "uuid_src c1 = ?U" "uuid_calls c1 = ?k1"
    unfolding n1 using u1 by (simp_all only: dom_update)
  have rest: "load_nodes nds (c1, im1) = (c', im')"
    using Cons.prems s by simp
  have "fst ` set (nodes c') =
          ({?i} \<union> fst ` set (nodes c)) \<union> set (assigned_ids ?U ?k1 (map nd_id nds))"
    using Cons.IH[OF rest] unfolding c1 .
  then show ?case
    unfolding ids by auto
qed

lemma map_upds_last:
  "length ks = length vs \<Longrightarrow> j < length ks \<Longrightarrow> ks ! j \<notin> set (drop (Suc j) ks) \<Longrightarrow>
     (m(ks [\<mapsto>] vs)) (ks ! j) = Some (vs ! j)"
proof (induction ks vs arbitrary: j m rule: list_induct2)
  case Nil
  then show ?case by simp
next
  case (Cons k ks v vs)
  show ?case
  proof (cases j)
    case 0
    with Cons.prems show ?thesis by simp
  next
    case (Suc j')
    have "j' < length ks" and "ks ! j' \<notin> set (drop (Suc j') ks)"
      using Cons.prems Suc by simp_all
    then have "((m(k \<mapsto> v))(ks [\<mapsto>] vs)) (ks ! j') = Some (vs ! j')"
      by (rule Cons.IH)
    then show ?thesis
      unfolding Suc map_upds_Cons nth_Cons_Suc .
  qed
qed

lemma map_upds_hit:
  "length ks = length vs \<Longrightarrow> k \<in> set ks \<Longrightarrow> \<exists>v \<in> set vs. (m(ks [\<mapsto>] vs)) k = Some v"
proof (induction ks vs arbitrary: m rule: list_induct2)
  case Nil
  then show ?case by simp
next
  case (Cons x xs y ys)
  show ?case
  proof (cases "k \<in> set xs")
    case True
    from Cons.IH[OF this, of "m(x \<mapsto> y)"]
    obtain v where v: "v \<in> set ys" "((m(x \<mapsto> y))(xs [\<mapsto>] ys)) k = Some v" by blast
    have "(m(x # xs [\<mapsto>] y # ys)) k = Some v"
      unfolding map_upds_Cons by (rule v(2))
    with v(1) show ?thesis by (intro bexI[of _ v]) simp_all
  next
    case False
    with Cons.prems have "k = x" by simp
    with False show ?thesis by simp
  qed
qed

lemma map_upds_last_iff:
  "length ks = length vs \<Longrightarrow> distinct vs \<Longrightarrow> j < length ks \<Longrightarrow>
     (m(ks [\<mapsto>] vs)) (ks ! j) = Some (vs ! j) \<longleftrightarrow> ks ! j \<notin> set (drop (Suc j) ks)"
proof (induction ks vs arbitrary: j m rule: list_induct2)
  case Nil
  then show ?case by simp
next
  case (Cons k ks v vs)
  show ?case
  proof (cases j)
    case 0
    show ?thesis
    proof (cases "k \<in> set ks")
      case True
      from map_upds_hit[OF Cons.hyps True, of "m(k \<mapsto> v)"]
      obtain v' where "v' \<in> set vs" "((m(k \<mapsto> v))(ks [\<mapsto>] vs)) k = Some v'" by blast
      moreover have "v \<notin> set vs" using Cons.prems(1) by simp
      ultimately have "(m(k # ks [\<mapsto>] v # vs)) k \<noteq> Some v"
        unfolding map_upds_Cons by auto
      then show ?thesis using True 0 by simp
    next
      case False
      then show ?thesis using 0 by simp
    qed
  next
    case (Suc j')
    have "j' < length ks" "distinct vs"
      using Cons.prems Suc by simp_all
    from Cons.IH[OF this(2,1), of "m(k \<mapsto> v)"]
    show ?thesis
      unfolding Suc map_upds_Cons nth_Cons_Suc drop_Suc_Cons .
  qed
qed

lemma last_occurrence:
  "k \<in> set ks \<Longrightarrow> \<exists>j < length ks. ks ! j = k \<and> k \<notin> set (drop (Suc j) ks)"
proof -
  assume "k \<in> set ks"
  then obtain ys zs where s: "ks = ys @ k # zs" "k \<notin> set zs"
    using split_list_last[of k ks] by blast
  have "length ys < length ks" "ks ! length ys = k" "drop (Suc (length ys)) ks = zs"
    by (simp_all add: s(1))
  with s(2) show ?thesis by blast
qed

lemma map_upds_value:
  assumes len: "length ks = length vs" and d: "distinct vs" and j: "j < length ks"
    and v: "(Map.empty(ks [\<mapsto>] vs)) k = Some (vs ! j)"
  shows "ks ! j = k \<and> k \<notin> set (drop (Suc j) ks)"
proof -
  have "k \<in> set ks"
  proof (rule ccontr)
    assume "k \<notin> set ks"
    then have "(Map.empty(ks [\<mapsto>] vs)) k = None" by simp
    with v show False by simp
  qed
  from last_occurrence[OF this] obtain j' where j': "j' < length ks" "ks ! j' = k"
    "k \<notin> set (drop (Suc j') ks)" by blast
  have "(Map.empty(ks [\<mapsto>] vs)) (ks ! j') = Some (vs ! j')"
    using map_upds_last[OF len j'(1)] j'(2,3) by simp
  with v j'(2) have "vs ! j' = vs ! j" by simp
  with d len j j'(1) have "j' = j" by (simp add: nth_eq_iff_index_eq)
  with j' show ?thesis by simp
qed

lemma load_nodes_distinct:
  "load_nodes nds (c, im) = (c', im') \<Longrightarrow> distinct (map fst (nodes c)) \<Longrightarrow>
     distinct (map fst (nodes c'))"
proof (induction nds arbitrary: c im)
  case Nil
  then show ?case by simp
next
  case (Cons nd nds)
  obtain c1 im1 where s: "load_node (c, im) nd = (c1, im1)" by force
  then have "distinct (map fst (nodes c1))"
    using Cons.prems(2) by (auto simp: load_node_eq Let_def distinct_update)
  moreover have "load_nodes nds (c1, im1) = (c', im')"
    using Cons.prems(1) s by simp
  ultimately show ?case by (rule Cons.IH[rotated])
qed

text \<open>
  Claim C10 as the spec has it fails: a node entry can be lost. Of the two node entries of
  \<open>twin_doc\<close>, both with the id \<open>A\<close>, the loaded diagram holds one node only, the second; the
  first entry, which lacks every other key, is in no node of the diagram.
\<close>

theorem load_from_twin_entries:
  "length (default [] (doc_nodes twin_doc)) = 2
   \<and> nodes (load_from (MindMapCanvas_init demo_uuids) twin_doc) = [(''A'', Suc 0)]
   \<and> doc_nodes (serialize (load_from (MindMapCanvas_init demo_uuids) twin_doc))
       = Some [\<lparr>nd_id = Some ''A'', nd_x = Some 5, nd_y = Some 7, nd_text = Some ''second'',
                 nd_width = Some 100, nd_height = Some 40\<rparr>]"
  by (simp add: twin_doc_def canvas_defs)

text \<open>
  Claim C10, amended. \<^verbatim>\<open>load_from\<close> has no failing path for an absent key. For every node
  entry, the one at position \<open>j\<close> of the document, a \<^verbatim>\<open>Node\<close> object is created (at the address
  \<open>next_ref c + j\<close>) with the entry's values where they are given and with \<^verbatim>\<open>x = 10\<close>, \<^verbatim>\<open>y = 10\<close>,
  \<^verbatim>\<open>text = "New Node"\<close>, \<^verbatim>\<open>width = 160\<close> and \<^verbatim>\<open>height = 52\<close> where they are not, and the id it
  gets (its own, or a uuid when the id is absent or empty) is a key of the node dictionary
  afterwards. That object is a node of the diagram, stored under its id, exactly when no later
  entry gets the same id: a later entry with the same id takes its place in the dictionary. The
  diagram has as many nodes as the entries have different ids, whatever the document's edge
  entries are.
\<close>

theorem load_from_node_defaults:
  fixes c :: canvas and data :: document
  defines "nds \<equiv> default [] (doc_nodes data)"
  defines "ids \<equiv> assigned_ids (uuid_src c) (uuid_calls c) (map nd_id nds)"
  assumes j: "j < length nds"
  shows "fst ` set (nodes (load_from c data)) = set ids
     \<and> length (nodes (load_from c data)) = card (set ids)
     \<and> Node_serialize (heap (load_from c data) (next_ref c + j)) =
              \<lparr>nd_id = Some (ids ! j),
               nd_x = Some (case nd_x (nds ! j) of None \<Rightarrow> 10 | Some v \<Rightarrow> v),
               nd_y = Some (case nd_y (nds ! j) of None \<Rightarrow> 10 | Some v \<Rightarrow> v),
               nd_text = Some (case nd_text (nds ! j) of None \<Rightarrow> ''New Node'' | Some v \<Rightarrow> v),
               nd_width = Some (case nd_width (nds ! j) of None \<Rightarrow> 160 | Some v \<Rightarrow> v),
               nd_height = Some (case nd_height (nds ! j) of None \<Rightarrow> 52 | Some v \<Rightarrow> v)\<rparr>
     \<and> (next_ref c + j \<in> snd ` set (nodes (load_from c data))
          \<longleftrightarrow> ids ! j \<notin> set (drop (Suc j) ids))
     \<and> (map_of (nodes (load_from c data)) (ids ! j) = Some (next_ref c + j)
          \<longleftrightarrow> ids ! j \<notin> set (drop (Suc j) ids))"
proof -
  let ?eds = "default [] (doc_edges data)"
  obtain c1 im where ln: "load_nodes nds (clear c, []) = (c1, im)" by force
  have lf: "load_from c data = load_edges im ?eds c1"
    using ln by (simp add: load_from_def nds_def)
  have cl: "uuid_src (clear c) = uuid_src c" "uuid_calls (clear c) = uuid_calls c"
    "nodes (clear c) = []" "next_ref (clear c) = next_ref c"
    by (simp_all add: clear_def)
  let ?refs = "[next_ref c ..< next_ref c + length nds]"
  have m: "map_of (nodes c1) = Map.empty(ids [\<mapsto>] ?refs)"
    using load_nodes_map_of[OF ln] by (simp add: cl ids_def)
  have k: "fst ` set (nodes c1) = set ids"
    using load_nodes_keys[OF ln] by (simp add: cl ids_def)
  have dk: "distinct (map fst (nodes c1))"
    using load_nodes_distinct[OF ln] by (simp add: cl)
  have len: "length ids = length ?refs" and jj: "j < length ids"
    using j by (simp_all add: ids_def)
  have rj: "?refs ! j = next_ref c + j"
    using j by simp
  have at: "map_of (nodes c1) (ids ! j) = Some (next_ref c + j)
              \<longleftrightarrow> ids ! j \<notin> set (drop (Suc j) ids)"
    unfolding m using map_upds_last_iff[OF len distinct_upt jj, of Map.empty] unfolding rj .
  have mem: "next_ref c + j \<in> snd ` set (nodes c1) \<longleftrightarrow> ids ! j \<notin> set (drop (Suc j) ids)"
  proof
    assume "next_ref c + j \<in> snd ` set (nodes c1)"
    then obtain k where "(k, next_ref c + j) \<in> set (nodes c1)" by force
    with dk have "map_of (nodes c1) k = Some (?refs ! j)"
      unfolding rj by simp
    then have "(Map.empty(ids [\<mapsto>] ?refs)) k = Some (?refs ! j)"
      unfolding m .
    from map_upds_value[OF len distinct_upt jj this]
    show "ids ! j \<notin> set (drop (Suc j) ids)" by simp
  next
    assume "ids ! j \<notin> set (drop (Suc j) ids)"
    with at have "map_of (nodes c1) (ids ! j) = Some (next_ref c + j)" by simp
    then have "(ids ! j, next_ref c + j) \<in> set (nodes c1)" by (rule map_of_SomeD)
    then show "next_ref c + j \<in> snd ` set (nodes c1)" by force
  qed
  have count: "length (nodes c1) = card (set ids)"
  proof -
    have "length (nodes c1) = length (map fst (nodes c1))" by simp
    also have "\<dots> = card (set (map fst (nodes c1)))"
      using dk by (simp only: distinct_card)
    also have "\<dots> = card (set ids)" using k by simp
    finally show ?thesis .
  qed
  have "map (\<lambda>r. Node_serialize (heap c1 r)) ?refs ! j = map2 filled nds ids ! j"
    using load_nodes_heap[OF ln] by (simp add: cl ids_def)
  then have h: "Node_serialize (heap c1 (next_ref c + j)) = filled (nds ! j) (ids ! j)"
    using j len by simp
  have n: "nodes (load_from c data) = nodes c1"
    unfolding lf by (simp add: load_edges_frame)
  have "Node_serialize (heap (load_from c data) (next_ref c + j)) = filled (nds ! j) (ids ! j)"
    unfolding lf using h by (simp add: load_edges_frame)
  then show ?thesis
    unfolding n filled_def default_def using k count mem at by blast
qed

theorem load_from_node_defaults_witness:
  "Suc 0 < length (default [] (doc_nodes bare_doc))
   \<and> fst ` set (nodes (load_from (MindMapCanvas_init demo_uuids) bare_doc)) = {''A'', ''u''}
   \<and> length (nodes (load_from (MindMapCanvas_init demo_uuids) bare_doc)) = 2
   \<and> Node_serialize (heap (load_from (MindMapCanvas_init demo_uuids) bare_doc) (Suc 0)) =
              \<lparr>nd_id = Some ''u'', nd_x = Some 5, nd_y = Some 10, nd_text = Some ''b'',
               nd_width = Some 160, nd_height = Some 40\<rparr>
   \<and> Suc 0 \<in> snd ` set (nodes (load_from (MindMapCanvas_init demo_uuids) bare_doc))
   \<and> map_of (nodes (load_from (MindMapCanvas_init demo_uuids) bare_doc)) ''u'' = Some (Suc 0)
   \<and> 0 < length (default [] (doc_nodes twin_doc))
   \<and> Node_serialize (heap (load_from (MindMapCanvas_init demo_uuids) twin_doc) 0) =
              \<lparr>nd_id = Some ''A'', nd_x = Some 10, nd_y = Some 10, nd_text = Some ''New Node'',
               nd_width = Some 160, nd_height = Some 52\<rparr>
   \<and> 0 \<notin> snd ` set (nodes (load_from (MindMapCanvas_init demo_uuids) twin_doc))
   \<and> length (nodes (load_from (MindMapCanvas_init demo_uuids) twin_doc)) = 1"
proof -
  let ?c = "MindMapCanvas_init demo_uuids"
  have nr: "next_ref ?c = 0"
    by (simp add: MindMapCanvas_init_def)
  have nds: "default [] (doc_nodes bare_doc) =
      [\<lparr>nd_id = Some ''A'', nd_x = None, nd_y = None, nd_text = None,
         nd_width = None, nd_height = None\<rparr>,
       \<lparr>nd_id = None, nd_x = Some 5, nd_y = None, nd_text = Some ''b'',
         nd_width = None, nd_height = Some 40\<rparr>]"
    by (simp add: bare_doc_def default_def)
  have ids: "assigned_ids (uuid_src ?c) (uuid_calls ?c) (map nd_id (default [] (doc_nodes bare_doc)))
               = [''A'', ''u'']"
    by (simp add: nds MindMapCanvas_init_def demo_uuids_def)
  have h1: "Suc 0 < length (default [] (doc_nodes bare_doc))"
    by (simp add: nds)
  have tnds: "default [] (doc_nodes twin_doc) =
      [\<lparr>nd_id = Some ''A'', nd_x = None, nd_y = None, nd_text = None,
         nd_width = None, nd_height = None\<rparr>,
       \<lparr>nd_id = Some ''A'', nd_x = Some 5, nd_y = Some 7, nd_text = Some ''second'',
         nd_width = Some 100, nd_height = Some 40\<rparr>]"
    by (simp add: twin_doc_def default_def)
  have tids: "assigned_ids (uuid_src ?c) (uuid_calls ?c) (map nd_id (default [] (doc_nodes twin_doc)))
               = [''A'', ''A'']"
    by (simp add: tnds)
  have h2: "0 < length (default [] (doc_nodes twin_doc))"
    by (simp add: tnds)
  have first: "fst ` set (nodes (load_from ?c bare_doc)) = {''A'', ''u''}
     \<and> length (nodes (load_from ?c bare_doc)) = 2
     \<and> Node_serialize (heap (load_from ?c bare_doc) (Suc 0)) =
              \<lparr>nd_id = Some ''u'', nd_x = Some 5, nd_y = Some 10, nd_text = Some ''b'',
               nd_width = Some 160, nd_height = Some 40\<rparr>
     \<and> Suc 0 \<in> snd ` set (nodes (load_from ?c bare_doc))
     \<and> map_of (nodes (load_from ?c bare_doc)) ''u'' = Some (Suc 0)"
    using load_from_node_defaults[where c = ?c, OF h1] unfolding ids nr
    by (simp add: nds insert_commute)
  have second: "Node_serialize (heap (load_from ?c twin_doc) 0) =
              \<lparr>nd_id = Some ''A'', nd_x = Some 10, nd_y = Some 10, nd_text = Some ''New Node'',
               nd_width = Some 160, nd_height = Some 52\<rparr>
     \<and> 0 \<notin> snd ` set (nodes (load_from ?c twin_doc))
     \<and> length (nodes (load_from ?c twin_doc)) = 1"
    using load_from_node_defaults[where c = ?c, OF h2] unfolding tids nr
    by (simp add: tnds)
  from h1 h2 first second show ?thesis by simp
qed

text \<open>
  Claim C5 (the code departs from it). \<^verbatim>\<open>load_from\<close> accepts a document edge whose two end
  points are the same node: the edge is entered in the diagram with \<^verbatim>\<open>a\<close> and \<^verbatim>\<open>b\<close> the same
  object, and serializes with equal end point ids. \<^verbatim>\<open>finish_connection\<close> refuses such an edge.
\<close>

theorem load_from_accepts_self_loop:
  "edges (load_from (MindMapCanvas_init demo_uuids) self_loop_doc)
     = [(''e'', \<lparr>edge_id = ''e'', edge_a = 0, edge_b = 0, edge_line = 3\<rparr>)]
   \<and> nodes (load_from (MindMapCanvas_init demo_uuids) self_loop_doc) = [(''A'', 0)]
   \<and> doc_edges (serialize (load_from (MindMapCanvas_init demo_uuids) self_loop_doc))
       = Some [\<lparr>ed_id = Some ''e'', ed_a = Some ''A'', ed_b = Some ''A''\<rparr>]"
  by (simp add: self_loop_doc_def canvas_defs)

section \<open>A selection that is no longer in the diagram\<close>

text \<open>
  Claim C1 (the code departs from it). \<^verbatim>\<open>finish_connection\<close> checks the target only: when the
  selection is a node that is no longer in the diagram (\<^verbatim>\<open>clear\<close> leaves \<^verbatim>\<open>selected_item\<close> as it
  is), a click on a node of the diagram creates an edge whose source id \<open>u\<close> is not in the
  node dictionary, and the diagram serializes with that edge.
\<close>

theorem finish_connection_stale_source:
  "nodes stale_selection = [(''B'', Suc 0)] \<and> selected_item stale_selection = Some 0
   \<and> node_id (heap stale_selection 0) = ''u''
   \<and> (\<exists>c'. finish_connection stale_selection [3] = Inr c'
        \<and> nodes c' = [(''B'', Suc 0)]
        \<and> edges c' = [(''ux'', \<lparr>edge_id = ''ux'', edge_a = 0, edge_b = Suc 0, edge_line = 5\<rparr>)]
        \<and> doc_edges (serialize c')
            = Some [\<lparr>ed_id = Some ''ux'', ed_a = Some ''u'', ed_b = Some ''B''\<rparr>])"
  by (simp add: stale_selection_def canvas_defs)


section \<open>The document store\<close>

lemma load_save_index [simp]:
  "load_user_maps_index (save_user_maps_index d u idx) u = idx"
  by (simp add: load_user_maps_index_def save_user_maps_index_def)

lemma map_files_save_index [simp]:
  "map_files (workspaces (save_user_maps_index d u idx) u) = map_files (workspaces d u)"
  by (simp add: save_user_maps_index_def)

lemma load_index_delete_map_file [simp]:
  "load_user_maps_index (delete_map_file d u mid) u = load_user_maps_index d u"
  by (simp add: load_user_maps_index_def delete_map_file_def Let_def)

lemma map_files_delete_map_file [simp]:
  "map_files (workspaces (delete_map_file d u mid) u) = AList.delete mid (map_files (workspaces d u))"
  by (simp add: delete_map_file_def Let_def)

lemma delete_map_file_absent:
  "mid \<notin> fst ` set (map_files (workspaces d u)) \<Longrightarrow> delete_map_file d u mid = d"
  by (simp add: delete_map_file_def Let_def)

lemma files_log_msg [simp]: "files (log_msg a m) = files a"
  by (simp add: log_msg_def)

lemma maps_list_log_msg [simp]: "maps_list (log_msg a m) = maps_list a"
  by (simp add: log_msg_def)

lemma files_refresh [simp]: "files (refresh_maps_list a) = files a"
  by (simp add: refresh_maps_list_def split: option.splits)

lemma set_sorted_items [simp]: "set (sorted_items idx) = set idx"
  by (simp add: sorted_items_def)

lemma row_id_list_row:
  "CHR ''|'' \<notin> set (fst kv) \<Longrightarrow> row_id (list_row kv) = fst kv"
proof -
  obtain k m where kv: "kv = (k, m)" by (cases kv)
  assume "CHR ''|'' \<notin> set (fst kv)"
  then have "\<And>x. x \<in> set k \<Longrightarrow> x \<noteq> CHR ''|''" using kv by auto
  then have "takeWhile (\<lambda>ch. ch \<noteq> CHR ''|'') (k @ ''|'' @ rest) = k" for rest
    by (simp add: takeWhile_append2)
  then show ?thesis
    by (simp add: kv row_id_def list_row_def Let_def)
qed

lemma rows_of_refresh:
  "row \<in> set (maps_list (refresh_maps_list a)) \<Longrightarrow> current_user a = Some u \<Longrightarrow>
     \<exists>kv \<in> set (load_user_maps_index (files a) u). row = list_row kv"
  by (auto simp: refresh_maps_list_def split: if_splits)

text \<open>
  Deleting the diagram of the selected row (the user confirms). The handler takes the text of
  the row before its first bar for the diagram's id \<open>mid\<close>; it removes the body file and the
  index entry of \<open>mid\<close>, and the list box is filled again from the index: when no id of the
  index contains a bar (a uuid does not), no row of the new listing has the id \<open>mid\<close>. When
  the store holds neither a body nor an index entry for \<open>mid\<close>, the files are left exactly
  as they were and nothing is written.
\<close>

lemma delete_selected_map_removes:
  assumes user: "current_user a = Some u"
  shows "\<exists>a'. delete_selected_map a (Some i) True = Inr a'
     \<and> row_id (selected_row a i) \<notin> fst ` set (map_files (workspaces (files a') u))
     \<and> row_id (selected_row a i) \<notin> fst ` set (load_user_maps_index (files a') u)
     \<and> ((\<forall>k \<in> fst ` set (load_user_maps_index (files a) u). CHR ''|'' \<notin> set k) \<longrightarrow>
          (\<forall>row \<in> set (maps_list a'). row_id row \<noteq> row_id (selected_row a i)))
     \<and> (row_id (selected_row a i) \<notin> fst ` set (map_files (workspaces (files a) u)) \<and>
          row_id (selected_row a i) \<notin> fst ` set (load_user_maps_index (files a) u)
            \<longrightarrow> files a' = files a)"
proof -
  let ?mid = "row_id (selected_row a i)"
  let ?d1 = "delete_map_file (files a) u ?mid"
  let ?idx = "load_user_maps_index (files a) u"
  let ?d2 = "if ?mid \<in> fst ` set ?idx then save_user_maps_index ?d1 u (AList.delete ?mid ?idx) else ?d1"
  let ?a' = "log_msg (refresh_maps_list (a\<lparr>files := ?d2\<rparr>)) (''Deleted map '' @ ?mid)"
  have res: "delete_selected_map a (Some i) True = Inr ?a'"
    using user by (simp add: delete_selected_map_def Let_def)
  have f: "files ?a' = ?d2" by simp
  have body: "?mid \<notin> fst ` set (map_files (workspaces ?d2 u))"
    by (simp add: delete_notin_dom)
  have idx2: "load_user_maps_index ?d2 u = AList.delete ?mid ?idx"
    by simp
  have entry: "?mid \<notin> fst ` set (load_user_maps_index ?d2 u)"
    unfolding idx2 by (rule delete_notin_dom)
  have rows: "\<forall>row \<in> set (maps_list ?a'). row_id row \<noteq> ?mid"
    if nobar: "\<forall>k \<in> fst ` set ?idx. CHR ''|'' \<notin> set k"
  proof
    fix row assume "row \<in> set (maps_list ?a')"
    then have "row \<in> set (maps_list (refresh_maps_list (a\<lparr>files := ?d2\<rparr>)))" by simp
    from rows_of_refresh[OF this, of u] user
    obtain kv where kv: "kv \<in> set (load_user_maps_index ?d2 u)" "row = list_row kv"
      by auto
    from kv(1) have in_idx: "kv \<in> set ?idx" and ne: "fst kv \<noteq> ?mid"
      unfolding idx2 by (auto simp: AList.delete_eq)
    from in_idx nobar have "CHR ''|'' \<notin> set (fst kv)" by force
    then have "row_id row = fst kv" unfolding kv(2) by (rule row_id_list_row)
    with ne show "row_id row \<noteq> ?mid" by simp
  qed
  have noop: "?d2 = files a"
    if "?mid \<notin> fst ` set (map_files (workspaces (files a) u))" "?mid \<notin> fst ` set ?idx"
    using that by (simp add: delete_map_file_absent)
  show ?thesis
  proof (intro exI[of _ ?a'] conjI impI)
    show "delete_selected_map a (Some i) True = Inr ?a'" by (rule res)
    show "?mid \<notin> fst ` set (map_files (workspaces (files ?a') u))"
      unfolding f by (rule body)
    show "?mid \<notin> fst ` set (load_user_maps_index (files ?a') u)"
      unfolding f by (rule entry)
    show "\<forall>row \<in> set (maps_list ?a'). row_id row \<noteq> ?mid"
      if "\<forall>k \<in> fst ` set ?idx. CHR ''|'' \<notin> set k"
      using that by (rule rows)
    show "files ?a' = files a"
      if "?mid \<notin> fst ` set (map_files (workspaces (files a) u)) \<and> ?mid \<notin> fst ` set ?idx"
      unfolding f using that noop by blast
  qed
qed

lemma delete_selected_map_removes_example:
  "current_user demo_app = Some ''bob'' \<and> current_user stale_list_app = Some ''bob''
   \<and> (\<exists>a'. delete_selected_map demo_app (Some 0) True = Inr a'
        \<and> map_files (workspaces (files a') ''bob'') = []
        \<and> load_user_maps_index (files a') ''bob'' = []
        \<and> maps_list a' = []
        \<and> written (files a') = [Remove_body ''bob'' ''m1'', Write_index ''bob''])
   \<and> (\<exists>a'. delete_selected_map stale_list_app (Some 0) True = Inr a'
        \<and> files a' = files stale_list_app)"
proof -
  have h: "current_user demo_app = Some ''bob''"
    by (simp add: demo_app_def login_user_def refresh_maps_list_def log_msg_def Let_def
          MindMapApp_init_def)
  then have h': "current_user stale_list_app = Some ''bob''"
    by (simp add: stale_list_app_def)
  have ev: "delete_selected_map demo_app (Some 0) True =
      Inr (log_msg (refresh_maps_list (demo_app\<lparr>files :=
             save_user_maps_index (delete_map_file (files demo_app) ''bob'' ''m1'') ''bob'' []\<rparr>))
            ''Deleted map m1'')"
    by (simp add: delete_selected_map_def demo_app_def login_user_def refresh_maps_list_def
          log_msg_def Let_def MindMapApp_init_def demo_disk_def ensure_user_folders_def
          load_user_maps_index_def sorted_items_def list_row_def default_def selected_row_def
          row_id_def delete_map_file_def)
  from delete_selected_map_removes[OF h, of 0]
  obtain a' where a': "delete_selected_map demo_app (Some 0) True = Inr a'" by blast
  have first: "map_files (workspaces (files a') ''bob'') = []
        \<and> load_user_maps_index (files a') ''bob'' = []
        \<and> maps_list a' = []
        \<and> written (files a') = [Remove_body ''bob'' ''m1'', Write_index ''bob'']"
    using a' unfolding ev
    by (auto simp: demo_app_def login_user_def refresh_maps_list_def
          log_msg_def Let_def MindMapApp_init_def demo_disk_def ensure_user_folders_def
          load_user_maps_index_def sorted_items_def save_user_maps_index_def delete_map_file_def)
  have gone: "row_id (selected_row stale_list_app 0)
                \<notin> fst ` set (map_files (workspaces (files stale_list_app) ''bob''))
            \<and> row_id (selected_row stale_list_app 0)
                \<notin> fst ` set (load_user_maps_index (files stale_list_app) ''bob'')"
    by (simp add: stale_list_app_def load_user_maps_index_def)
  from delete_selected_map_removes[OF h', of 0] gone
  obtain a'' where "delete_selected_map stale_list_app (Some 0) True = Inr a''"
    and "files a'' = files stale_list_app"
    by blast
  with h h' a' first show ?thesis by blast
qed

lemma le_dates:
  "(''2026-01-02 09:00:00'' :: string) \<le> ''2026-11-04 10:00:01''"
  "\<not> (''2026-11-04 10:00:01'' :: string) \<le> ''2026-01-02 09:00:00''"
  by (simp_all add: less_eq_char_def less_char_def)

lemma bar_app_eval:
  "current_user bar_app = Some ''bob''
   \<and> files bar_app =
       \<lparr>workspaces = (\<lambda>u. \<lparr>index_file = None, map_files = []\<rparr>)
        (''bob'' := \<lparr>index_file = Some (Index [(''m1'', [(''title'', ''Plan''),
                          (''created'', ''2026-01-01 09:00:00''),
                          (''modified'', ''2026-01-02 09:00:00'')]),
                        (''m1|draft'', [(''title'', ''m1|draft''),
                          (''created'', ''2026-11-04 10:00:00''),
                          (''modified'', ''2026-11-04 10:00:01'')])]),
                    map_files = [(''m1'', dangling_doc), (''m1|draft'', self_loop_doc)]\<rparr>),
      written = [Write_index ''bob'']\<rparr>
   \<and> maps_list bar_app =
       [list_row (''m1|draft'', [(''title'', ''m1|draft''), (''created'', ''2026-11-04 10:00:00''),
                          (''modified'', ''2026-11-04 10:00:01'')]),
        list_row (''m1'', [(''title'', ''Plan''),
                          (''created'', ''2026-01-01 09:00:00''),
                          (''modified'', ''2026-01-02 09:00:00'')])]"
  by (simp add: bar_app_def bar_disk_def MindMapApp_init_def login_user_def open_map_dialog_def
      refresh_maps_list_def log_msg_def truthy_def ensure_user_folders_def load_user_maps_index_def
      save_user_maps_index_def sorted_items_def default_def Let_def demo_clock_def le_dates)

text \<open>
  Claim C8 (the code departs from it). The handler does not keep the id of a row; it reads it
  back from the row's text, up to the first bar. A diagram whose id contains a bar (the Open
  dialog takes the id from the file name, here \<open>m1|draft\<close>) is stored with a body and an
  index entry and is listed, but deleting its row removes the body and the index entry of
  another diagram, \<open>m1\<close>, and leaves those of \<open>m1|draft\<close>, which the listing afterwards
  still includes.
\<close>

theorem delete_selected_map_bar_in_id:
  "map fst (map_files (workspaces (files bar_app) ''bob'')) = [''m1'', ''m1|draft'']
   \<and> map fst (load_user_maps_index (files bar_app) ''bob'') = [''m1'', ''m1|draft'']
   \<and> selected_row bar_app 0 =
        list_row (''m1|draft'', [(''title'', ''m1|draft''), (''created'', ''2026-11-04 10:00:00''),
                                 (''modified'', ''2026-11-04 10:00:01'')])
   \<and> row_id (selected_row bar_app 0) = ''m1''
   \<and> (\<exists>a'. delete_selected_map bar_app (Some 0) True = Inr a'
        \<and> map fst (map_files (workspaces (files a') ''bob'')) = [''m1|draft'']
        \<and> map fst (load_user_maps_index (files a') ''bob'') = [''m1|draft'']
        \<and> maps_list a' = [selected_row bar_app 0]
        \<and> written (files a') = [Write_index ''bob'', Remove_body ''bob'' ''m1'', Write_index ''bob''])"
proof -
  let ?a' = "log_msg (refresh_maps_list (bar_app\<lparr>files :=
          save_user_maps_index (delete_map_file (files bar_app) ''bob'' ''m1'') ''bob''
            (AList.delete ''m1'' (load_user_maps_index (files bar_app) ''bob''))\<rparr>)) ''Deleted map m1''"
  have usr: "current_user bar_app = Some ''bob''"
    by (simp add: bar_app_eval)
  have sel: "selected_row bar_app 0 =
        list_row (''m1|draft'', [(''title'', ''m1|draft''), (''created'', ''2026-11-04 10:00:00''),
                                 (''modified'', ''2026-11-04 10:00:01'')])"
    by (simp add: selected_row_def bar_app_eval)
  have rid: "row_id (selected_row bar_app 0) = ''m1''"
    unfolding sel by (simp add: row_id_def list_row_def default_def)
  have idx: "load_user_maps_index (files bar_app) ''bob'' =
     [(''m1'', [(''title'', ''Plan''), (''created'', ''2026-01-01 09:00:00''),
                (''modified'', ''2026-01-02 09:00:00'')]),
      (''m1|draft'', [(''title'', ''m1|draft''), (''created'', ''2026-11-04 10:00:00''),
                      (''modified'', ''2026-11-04 10:00:01'')])]"
    by (simp add: load_user_maps_index_def bar_app_eval)
  have bodies: "map_files (workspaces (files bar_app) ''bob'')
                  = [(''m1'', dangling_doc), (''m1|draft'', self_loop_doc)]"
    by (simp add: bar_app_eval)
  have res: "delete_selected_map bar_app (Some 0) True = Inr ?a'"
    by (simp add: delete_selected_map_def rid idx usr Let_def)
  have after: "files ?a' =
      \<lparr>workspaces = (\<lambda>u. \<lparr>index_file = None, map_files = []\<rparr>)
        (''bob'' := \<lparr>index_file = Some (Index [
                        (''m1|draft'', [(''title'', ''m1|draft''),
                          (''created'', ''2026-11-04 10:00:00''),
                          (''modified'', ''2026-11-04 10:00:01'')])]),
                    map_files = [(''m1|draft'', self_loop_doc)]\<rparr>),
      written = [Write_index ''bob'', Remove_body ''bob'' ''m1'', Write_index ''bob'']\<rparr>"
    by (simp add: bar_app_eval load_user_maps_index_def delete_map_file_def
          save_user_maps_index_def Let_def)
  have rows: "maps_list ?a' = [selected_row bar_app 0]"
    by (simp add: idx sel usr refresh_maps_list_def sorted_items_def)
  have "map fst (map_files (workspaces (files ?a') ''bob'')) = [''m1|draft'']
      \<and> map fst (load_user_maps_index (files ?a') ''bob'') = [''m1|draft'']
      \<and> written (files ?a') = [Write_index ''bob'', Remove_body ''bob'' ''m1'', Write_index ''bob'']"
    unfolding after by (simp add: load_user_maps_index_def)
  with res rows have "\<exists>a'. delete_selected_map bar_app (Some 0) True = Inr a'
        \<and> map fst (map_files (workspaces (files a') ''bob'')) = [''m1|draft'']
        \<and> map fst (load_user_maps_index (files a') ''bob'') = [''m1|draft'']
        \<and> maps_list a' = [selected_row bar_app 0]
        \<and> written (files a') = [Write_index ''bob'', Remove_body ''bob'' ''m1'', Write_index ''bob'']"
    by (intro exI[of _ ?a']) simp
  moreover have "map fst (map_files (workspaces (files bar_app) ''bob'')) = [''m1'', ''m1|draft'']"
    by (simp add: bodies)
  moreover have "map fst (load_user_maps_index (files bar_app) ''bob'') = [''m1'', ''m1|draft'']"
    by (simp add: idx)
  ultimately show ?thesis using sel rid by blast
qed

section \<open>Saving a diagram\<close>

lemmas app_defs = MindMapApp_init_def login_user_def open_map_dialog_def refresh_maps_list_def
  log_msg_def truthy_def ensure_user_folders_def load_user_maps_index_def save_user_maps_index_def
  save_map_file_def sorted_items_def list_row_def quoted_def demo_disk_def demo_app_def
  opened_by_dialog_def demo_clock_def

lemma opened_by_dialog_eval:
  "current_user opened_by_dialog = Some ''bob'' \<and> current_map_id opened_by_dialog = Some ''m1''
   \<and> current_map_meta opened_by_dialog = None
   \<and> index_file (workspaces (files opened_by_dialog) ''bob'') =
        Some (Index [(''m1'', [(''title'', ''Plan''), (''created'', ''2026-01-01 09:00:00''),
                               (''modified'', ''2026-01-02 09:00:00'')])])
   \<and> written (files opened_by_dialog) = []"
  by (simp add: app_defs Let_def default_def)

text \<open>
  What \<^verbatim>\<open>save_map\<close> does for a diagram that has an id: the body is written, then the index
  (after an empty index, when there was no index file); the body is the serialized canvas; the
  index entry of the id gets \<^verbatim>\<open>modified\<close> from the clock, and \<^verbatim>\<open>created\<close> from the clock exactly
  when the session's metadata \<^verbatim>\<open>current_map_meta\<close> has none.
\<close>

lemma save_map_existing:
  assumes "current_user a = Some u" and "u \<noteq> []" and "current_map_id a = Some mid" and "mid \<noteq> []"
  shows "written (files (save_map a title now)) =
           written (files a)
           @ (if index_file (workspaces (files a) u) = None then [Write_index u] else [])
           @ [Write_body u mid, Write_index u]
     \<and> map_of (map_files (workspaces (files (save_map a title now)) u)) mid = Some (serialize (canvas a))
     \<and> (\<exists>m. map_of (load_user_maps_index (files (save_map a title now)) u) mid = Some m
            \<and> map_of m ''modified'' = Some (now 0)
            \<and> map_of m ''created'' =
                 Some (case map_of (default [] (current_map_meta a)) ''created'' of
                         None \<Rightarrow> now 1 | Some t \<Rightarrow> t))"
proof -
  let ?m0 = "if truthy (current_map_meta a) then default [] (current_map_meta a) else []"
  let ?m1 = "AList.update ''modified'' (now 0) ?m0"
  let ?m2 = "if ''created'' \<notin> fst ` set ?m1 then AList.update ''created'' (now (Suc 0)) ?m1 else ?m1"
  let ?d1 = "save_map_file (files a) u mid (serialize (canvas a))"
  let ?d2 = "save_user_maps_index ?d1 u (AList.update mid ?m2 (load_user_maps_index ?d1 u))"
  have f: "files (save_map a title now) = ?d2"
    using assms by (simp add: save_map_def truthy_def Let_def default_def)
  have m0: "map_of ?m0 = map_of (default [] (current_map_meta a))"
    by (cases "current_map_meta a") (auto simp: truthy_def default_def)
  have cr: "''created'' \<in> fst ` set ?m1 \<longleftrightarrow> map_of ?m0 ''created'' \<noteq> None"
    by (simp add: dom_update map_of_eq_None_iff)
  have meta: "map_of ?m2 ''modified'' = Some (now 0)
      \<and> map_of ?m2 ''created'' = Some (case map_of ?m0 ''created'' of None \<Rightarrow> now 1 | Some t \<Rightarrow> t)"
    unfolding cr by (auto simp: update_conv')
  have w: "written ?d2 = written (files a)
           @ (if index_file (workspaces (files a) u) = None then [Write_index u] else [])
           @ [Write_body u mid, Write_index u]"
    by (simp add: save_user_maps_index_def save_map_file_def ensure_user_folders_def Let_def
          split: option.splits)
  have b: "map_of (map_files (workspaces ?d2 u)) mid = Some (serialize (canvas a))"
    by (simp add: save_user_maps_index_def save_map_file_def Let_def update_conv')
  have i: "map_of (load_user_maps_index ?d2 u) mid = Some ?m2"
    by (simp add: load_user_maps_index_def save_user_maps_index_def update_conv')
  show ?thesis
    unfolding f using w b i meta unfolding m0 by blast
qed

text \<open>
  Claim C7 (the code departs from it). After the Open dialog, which leaves \<^verbatim>\<open>current_map_meta\<close>
  as it was, a save of the stored diagram \<open>m1\<close> writes an index entry with a new \<^verbatim>\<open>created\<close>
  time (and without the title), though the index already had an entry for \<open>m1\<close>. Body and index
  are written in that order.
\<close>

theorem save_map_resets_created:
  "map_of (load_user_maps_index (files opened_by_dialog) ''bob'') ''m1''
     = Some [(''title'', ''Plan''), (''created'', ''2026-01-01 09:00:00''),
             (''modified'', ''2026-01-02 09:00:00'')]
   \<and> map_of (load_user_maps_index (files (save_map opened_by_dialog None demo_clock)) ''bob'') ''m1''
     = Some [(''modified'', ''2026-11-04 10:00:00''), (''created'', ''2026-11-04 10:00:01'')]
   \<and> written (files (save_map opened_by_dialog None demo_clock))
     = [Write_body ''bob'' ''m1'', Write_index ''bob'']"
  by (simp add: save_map_def truthy_def Let_def default_def opened_by_dialog_eval
        load_user_maps_index_def save_user_maps_index_def save_map_file_def
        ensure_user_folders_def demo_clock_def)


section \<open>The canvases the handlers build are well formed\<close>

text \<open>
  \<open>wf_canvas\<close> holds of the new canvas and is kept by every handler of the canvas and by
  \<^verbatim>\<open>load_from\<close>, so the conditions \<open>wf_nodes\<close> and \<open>wf_edges\<close> of the statements above hold of
  every canvas the program reaches.
\<close>

lemma set_update_subset: "set (AList.update k v al) \<subseteq> insert (k, v) (set al)"
  by (induction al) auto

lemma set_delete_subset: "set (AList.delete k al) \<subseteq> set al"
  by (auto simp: AList.delete_eq)

lemma wf_canvasI:
  assumes "distinct (map fst (nodes c))" and "distinct (map fst (edges c))"
    and "\<And>k r. (k, r) \<in> set (nodes c) \<Longrightarrow> node_id (heap c r) = k \<and> r < next_ref c"
    and "\<And>k e. (k, e) \<in> set (edges c) \<Longrightarrow>
           edge_id e = k \<and> k \<in> set (connections (heap c (edge_a e)))
           \<and> k \<in> set (connections (heap c (edge_b e)))
           \<and> edge_a e < next_ref c \<and> edge_b e < next_ref c"
    and "\<And>s. selected_item c = Some s \<Longrightarrow> s < next_ref c"
  shows "wf_canvas c"
  using assms
  by (auto simp: wf_canvas_def wf_nodes_def wf_edges_def allocated_def list_all_iff
           split: option.splits)

lemma wf_canvasD:
  assumes "wf_canvas c"
  shows "distinct (map fst (nodes c))" and "distinct (map fst (edges c))"
    and "\<And>k r. (k, r) \<in> set (nodes c) \<Longrightarrow> node_id (heap c r) = k \<and> r < next_ref c"
    and "\<And>k e. (k, e) \<in> set (edges c) \<Longrightarrow>
           edge_id e = k \<and> k \<in> set (connections (heap c (edge_a e)))
           \<and> k \<in> set (connections (heap c (edge_b e)))
           \<and> edge_a e < next_ref c \<and> edge_b e < next_ref c"
    and "\<And>s. selected_item c = Some s \<Longrightarrow> s < next_ref c"
  using assms
  by (auto simp: wf_canvas_def wf_nodes_def wf_edges_def allocated_def list_all_iff
           split: option.splits)

lemmas wf_defs = wf_canvas_def wf_nodes_def wf_edges_def allocated_def list_all_iff

lemma wf_init: "wf_canvas (MindMapCanvas_init uuids)"
  by (simp add: wf_defs MindMapCanvas_init_def)

lemma wf_clear: "wf_canvas c \<Longrightarrow> wf_canvas (clear c)"
  by (auto simp: wf_defs clear_def split: option.splits)

lemma wf_on_click: "wf_canvas c \<Longrightarrow> r < next_ref c \<Longrightarrow> wf_canvas (on_click c r)"
  by (auto simp: wf_defs on_click_def split: option.splits)

lemma wf_on_single: "wf_canvas c \<Longrightarrow> wf_canvas (on_single c clicked)"
  by (auto simp: wf_defs on_single_def split: option.splits)

lemma wf_start_connection: "wf_canvas c \<Longrightarrow> wf_canvas (start_connection c)"
  by (auto simp: wf_defs start_connection_def split: option.splits)

lemma wf_follow_mouse: "wf_canvas c \<Longrightarrow> follow_mouse c = Inr c' \<Longrightarrow> wf_canvas c'"
  by (auto simp: wf_defs follow_mouse_def split: option.splits)

lemma wf_on_drag: "wf_canvas c \<Longrightarrow> wf_canvas (on_drag c r ex ey)"
  by (auto simp: wf_defs on_drag_def Let_def split: option.splits)

lemma wf_on_right_click: "wf_canvas c \<Longrightarrow> wf_canvas (on_right_click c r new)"
  by (auto simp: wf_defs on_right_click_def split: option.splits)

lemma wf_canvas_eq:
  "heap c' = heap c \<Longrightarrow> next_ref c' = next_ref c \<Longrightarrow> nodes c' = nodes c \<Longrightarrow>
     edges c' = edges c \<Longrightarrow> selected_item c' = selected_item c \<Longrightarrow> wf_canvas c' = wf_canvas c"
  by (simp add: wf_defs)

text \<open>A new object, entered in the node dictionary under its id.\<close>

lemma wf_alloc:
  assumes wf: "wf_canvas c" and c': "heap c' = (heap c)(next_ref c := n)"
    "next_ref c' = Suc (next_ref c)" "nodes c' = AList.update (node_id n) (next_ref c) (nodes c)"
    "edges c' = edges c" "selected_item c' = selected_item c"
  shows "wf_canvas c'"
proof (rule wf_canvasI)
  have old: "\<And>r'. r' < next_ref c \<Longrightarrow> heap c' r' = heap c r'"
    by (simp add: c')
  show "distinct (map fst (nodes c'))"
    using wf_canvasD(1)[OF wf] by (simp add: c' distinct_update)
  show "distinct (map fst (edges c'))"
    using wf_canvasD(2)[OF wf] by (simp add: c')
  show "node_id (heap c' r) = k \<and> r < next_ref c'" if "(k, r) \<in> set (nodes c')" for k r
  proof -
    from that have "(k, r) = (node_id n, next_ref c) \<or> (k, r) \<in> set (nodes c)"
      using set_update_subset[of "node_id n" "next_ref c" "nodes c"] by (auto simp: c')
    then show ?thesis
    proof
      assume "(k, r) = (node_id n, next_ref c)"
      then show ?thesis by (simp add: c')
    next
      assume "(k, r) \<in> set (nodes c)"
      from wf_canvasD(3)[OF wf this] show ?thesis using old c'(2) by simp
    qed
  qed
  show "edge_id e = k \<and> k \<in> set (connections (heap c' (edge_a e)))
        \<and> k \<in> set (connections (heap c' (edge_b e)))
        \<and> edge_a e < next_ref c' \<and> edge_b e < next_ref c'" if "(k, e) \<in> set (edges c')" for k e
  proof -
    from that have "(k, e) \<in> set (edges c)" by (simp add: c')
    from wf_canvasD(4)[OF wf this] show ?thesis using old c'(2) by simp
  qed
  show "s < next_ref c'" if "selected_item c' = Some s" for s
    using wf_canvasD(5)[OF wf, of s] that c' by simp
qed

lemma wf_on_double: "wf_canvas c \<Longrightarrow> wf_canvas (on_double c ex ey)"
  by (rule wf_alloc[where n = "heap (on_double c ex ey) (next_ref c)"])
     (simp_all add: on_double_def Node_init_def id_or_uuid_def uuid4_def Let_def)

lemma wf_load_node: "wf_canvas c \<Longrightarrow> wf_canvas (fst (load_node (c, im) nd))"
  by (rule wf_alloc[where n = "heap (fst (load_node (c, im) nd)) (next_ref c)"])
     (simp_all add: load_node_eq Let_def)

lemma load_node_id_map: "snd (load_node (c, nodes c) nd) = nodes (fst (load_node (c, nodes c) nd))"
  by (simp add: load_node_eq Let_def)

lemma wf_load_nodes:
  "wf_canvas c \<Longrightarrow> im = nodes c \<Longrightarrow>
     wf_canvas (fst (load_nodes nds (c, im))) \<and> snd (load_nodes nds (c, im)) = nodes (fst (load_nodes nds (c, im)))"
proof (induction nds arbitrary: c im)
  case Nil
  then show ?case by simp
next
  case (Cons nd nds)
  obtain c1 im1 where s: "load_node (c, im) nd = (c1, im1)" by force
  have "wf_canvas c1" using wf_load_node[OF Cons.prems(1), of im nd] s by simp
  moreover have "im1 = nodes c1" using load_node_id_map[of c nd] s Cons.prems(2) by simp
  ultimately show ?case using Cons.IH[of c1 im1] s by simp
qed

text \<open>A new edge between two objects, entered in the edge dictionary under its id.\<close>

lemma wf_connect:
  assumes wf: "wf_canvas c" and a: "a < next_ref c" and b: "b < next_ref c"
    and c': "heap c' = ((heap c)(a := (heap c a)\<lparr>connections := conn_add i (connections (heap c a))\<rparr>))
               (b := (((heap c)(a := (heap c a)\<lparr>connections := conn_add i (connections (heap c a))\<rparr>)) b)
                  \<lparr>connections := conn_add i (connections
                      (((heap c)(a := (heap c a)\<lparr>connections := conn_add i (connections (heap c a))\<rparr>)) b))\<rparr>)"
    "next_ref c' = next_ref c" "nodes c' = nodes c"
    "edges c' = AList.update i \<lparr>edge_id = i, edge_a = a, edge_b = b, edge_line = l\<rparr> (edges c)"
    "selected_item c' = selected_item c"
  shows "wf_canvas c'"
proof (rule wf_canvasI)
  have ids: "\<And>r. node_id (heap c' r) = node_id (heap c r)"
    by (simp add: c')
  have grow: "\<And>r. set (connections (heap c r)) \<subseteq> set (connections (heap c' r))"
    by (auto simp: c' conn_add_def)
  have new: "i \<in> set (connections (heap c' a))" "i \<in> set (connections (heap c' b))"
    by (auto simp: c' conn_add_def)
  show "distinct (map fst (nodes c'))"
    using wf_canvasD(1)[OF wf] by (simp add: c')
  show "distinct (map fst (edges c'))"
    using wf_canvasD(2)[OF wf] by (simp add: c' distinct_update)
  show "node_id (heap c' r) = k \<and> r < next_ref c'" if "(k, r) \<in> set (nodes c')" for k r
    using wf_canvasD(3)[OF wf, of k r] that by (simp add: c'(2,3) ids)
  show "edge_id e = k \<and> k \<in> set (connections (heap c' (edge_a e)))
        \<and> k \<in> set (connections (heap c' (edge_b e)))
        \<and> edge_a e < next_ref c' \<and> edge_b e < next_ref c'" if "(k, e) \<in> set (edges c')" for k e
  proof -
    from that have "(k, e) = (i, \<lparr>edge_id = i, edge_a = a, edge_b = b, edge_line = l\<rparr>)
                    \<or> (k, e) \<in> set (edges c)"
      using set_update_subset[of i "\<lparr>edge_id = i, edge_a = a, edge_b = b, edge_line = l\<rparr>" "edges c"]
      by (auto simp: c'(4))
    then show ?thesis
    proof
      assume "(k, e) = (i, \<lparr>edge_id = i, edge_a = a, edge_b = b, edge_line = l\<rparr>)"
      then show ?thesis using new a b by (simp add: c'(2))
    next
      assume "(k, e) \<in> set (edges c)"
      from wf_canvasD(4)[OF wf this] show ?thesis using grow by (auto simp: c'(2))
    qed
  qed
  show "s < next_ref c'" if "selected_item c' = Some s" for s
    using wf_canvasD(5)[OF wf, of s] that c' by simp
qed

lemma finish_connection_aborted:
  "find_target c items = None \<or> find_target c items = selected_item c \<Longrightarrow>
     finish_connection c items =
       Inr (c\<lparr>app_log := app_log c @ [''Connection aborted or clicked same node.''],
              temp_line := None, motion := False, button1 := On_single\<rparr>)"
  by (cases "find_target c items"; cases "selected_item c")
     (auto simp: finish_connection_def Let_def)

lemma wf_finish_connection:
  assumes wf: "wf_canvas c" and fc: "finish_connection c items = Inr c'"
  shows "wf_canvas c'"
proof (cases "find_target c items")
  case None
  with fc finish_connection_aborted[of c items]
  have "c' = c\<lparr>app_log := app_log c @ [''Connection aborted or clicked same node.''],
                        temp_line := None, motion := False, button1 := On_single\<rparr>"
    by simp
  then show ?thesis using wf wf_canvas_eq[of c' c] by simp
next
  case (Some t)
  show ?thesis
  proof (cases "Some t = selected_item c")
    case True
    with fc Some finish_connection_aborted[of c items]
    have "c' = c\<lparr>app_log := app_log c @ [''Connection aborted or clicked same node.''],
                        temp_line := None, motion := False, button1 := On_single\<rparr>"
      by simp
    then show ?thesis using wf wf_canvas_eq[of c' c] by simp
  next
    case False
    with fc Some obtain s where s: "selected_item c = Some s"
      by (cases "selected_item c") (auto simp: finish_connection_def Let_def)
    from find_target_mem[OF Some] obtain k where "(k, t) \<in> set (nodes c)" by force
    from wf_canvasD(3)[OF wf this] have t: "t < next_ref c" by simp
    from wf_canvasD(5)[OF wf s] have s': "s < next_ref c" .
    show ?thesis
      by (rule wf_connect[OF wf s' t, where i = "uuid_src c (uuid_calls c)" and l = "next_item c"])
         (use fc Some False s in \<open>auto simp: finish_connection_def Edge_init_def id_or_uuid_def
             uuid4_def Let_def\<close>)
  qed
qed

lemma wf_load_edge:
  assumes wf: "wf_canvas c" and im: "set im \<subseteq> set (nodes c)"
  shows "wf_canvas (load_edge im c ed)"
proof (cases "resolves (map fst im) ed")
  case False
  then show ?thesis using wf by (simp add: load_edge_drop)
next
  case True
  then obtain a b where ab: "lookup_id im (ed_a ed) = Some a" "lookup_id im (ed_b ed) = Some b"
    by (auto simp: lookup_id_resolves)
  then obtain ka kb where "(ka, a) \<in> set (nodes c)" "(kb, b) \<in> set (nodes c)"
    using im by (blast dest: lookup_id_SomeD)
  then have a: "a < next_ref c" and b: "b < next_ref c"
    using wf_canvasD(3)[OF wf] by auto
  show ?thesis
    by (rule wf_connect[OF wf a b, where i = "hd (assigned_ids (uuid_src c) (uuid_calls c) [ed_id ed])"
          and l = "next_item c"])
       (simp_all add: load_edge_keep[OF ab] Let_def)
qed

lemma wf_load_edges:
  "wf_canvas c \<Longrightarrow> set im \<subseteq> set (nodes c) \<Longrightarrow> wf_canvas (load_edges im eds c)"
  by (induction eds arbitrary: c) (simp_all add: wf_load_edge load_edge_frame)

lemma wf_load_from: "wf_canvas c \<Longrightarrow> wf_canvas (load_from c data)"
proof -
  assume wf: "wf_canvas c"
  obtain c1 im where ln: "load_nodes (default [] (doc_nodes data)) (clear c, []) = (c1, im)"
    by force
  have "nodes (clear c) = []" by (simp add: clear_def)
  with wf_load_nodes[OF wf_clear[OF wf], of "[]" "default [] (doc_nodes data)"] ln
  have "wf_canvas c1" and "im = nodes c1" by simp_all
  then have "wf_canvas (load_edges im (default [] (doc_edges data)) c1)"
    by (simp add: wf_load_edges)
  then show ?thesis by (simp add: load_from_def ln)
qed

lemma wf_delete_edge: "wf_canvas c \<Longrightarrow> wf_canvas (delete_edge c eid)"
proof (cases "map_of (edges c) eid")
  case None
  assume "wf_canvas c"
  with None show ?thesis by (simp add: delete_edge_absent)
next
  case (Some e0)
  assume wf: "wf_canvas c"
  let ?c' = "delete_edge c eid"
  have ids: "\<And>r. node_id (heap ?c' r) = node_id (heap c r)"
    by (rule delete_edge_node_id)
  have keep: "\<And>r k. k \<noteq> eid \<Longrightarrow> k \<in> set (connections (heap c r)) \<Longrightarrow>
                 k \<in> set (connections (heap ?c' r))"
    using Some by (auto simp: delete_edge_def Let_def conn_discard_def)
  have fr: "next_ref ?c' = next_ref c" "selected_item ?c' = selected_item c"
    using Some by (simp_all add: delete_edge_def Let_def)
  show ?thesis
  proof (rule wf_canvasI)
    show "distinct (map fst (nodes ?c'))"
      using wf_canvasD(1)[OF wf] by (simp add: delete_edge_nodes)
    show "distinct (map fst (edges ?c'))"
      using wf_canvasD(2)[OF wf] by (simp add: delete_edge_edges distinct_delete)
    show "node_id (heap ?c' r) = k \<and> r < next_ref ?c'" if "(k, r) \<in> set (nodes ?c')" for k r
      using wf_canvasD(3)[OF wf, of k r] that by (simp add: delete_edge_nodes ids fr)
    show "edge_id e = k \<and> k \<in> set (connections (heap ?c' (edge_a e)))
        \<and> k \<in> set (connections (heap ?c' (edge_b e)))
        \<and> edge_a e < next_ref ?c' \<and> edge_b e < next_ref ?c'" if "(k, e) \<in> set (edges ?c')" for k e
    proof -
      from that have "(k, e) \<in> set (edges c)" and "k \<noteq> eid"
        by (auto simp: delete_edge_edges AList.delete_eq)
      with wf_canvasD(4)[OF wf this(1)] keep show ?thesis by (simp add: fr)
    qed
    show "s < next_ref ?c'" if "selected_item ?c' = Some s" for s
      using wf_canvasD(5)[OF wf, of s] that by (simp add: fr)
  qed
qed

lemma wf_fold_delete_edge:
  "wf_canvas c \<Longrightarrow> wf_canvas (fold (\<lambda>eid c'. delete_edge c' eid) ks c)"
  by (induction ks arbitrary: c) (simp_all add: wf_delete_edge)

lemma wf_drop_node:
  assumes wf: "wf_canvas c"
  shows "wf_canvas (c\<lparr>nodes := AList.delete i (nodes c), app_log := l\<rparr>)"
proof (rule wf_canvasI)
  show "distinct (map fst (nodes (c\<lparr>nodes := AList.delete i (nodes c), app_log := l\<rparr>)))"
    using wf_canvasD(1)[OF wf] by (simp add: distinct_delete)
  show "distinct (map fst (edges (c\<lparr>nodes := AList.delete i (nodes c), app_log := l\<rparr>)))"
    using wf_canvasD(2)[OF wf] by simp
  show "node_id (heap (c\<lparr>nodes := AList.delete i (nodes c), app_log := l\<rparr>) r) = k
      \<and> r < next_ref (c\<lparr>nodes := AList.delete i (nodes c), app_log := l\<rparr>)"
    if "(k, r) \<in> set (nodes (c\<lparr>nodes := AList.delete i (nodes c), app_log := l\<rparr>))" for k r
  proof -
    from that have "(k, r) \<in> set (nodes c)"
      using set_delete_subset[of i "nodes c"] by auto
    from wf_canvasD(3)[OF wf this] show ?thesis by simp
  qed
  show "edge_id e = k
      \<and> k \<in> set (connections (heap (c\<lparr>nodes := AList.delete i (nodes c), app_log := l\<rparr>) (edge_a e)))
      \<and> k \<in> set (connections (heap (c\<lparr>nodes := AList.delete i (nodes c), app_log := l\<rparr>) (edge_b e)))
      \<and> edge_a e < next_ref (c\<lparr>nodes := AList.delete i (nodes c), app_log := l\<rparr>)
      \<and> edge_b e < next_ref (c\<lparr>nodes := AList.delete i (nodes c), app_log := l\<rparr>)"
    if "(k, e) \<in> set (edges (c\<lparr>nodes := AList.delete i (nodes c), app_log := l\<rparr>))" for k e
    using wf_canvasD(4)[OF wf, of k e] that by simp
  show "s < next_ref (c\<lparr>nodes := AList.delete i (nodes c), app_log := l\<rparr>)"
    if "selected_item (c\<lparr>nodes := AList.delete i (nodes c), app_log := l\<rparr>) = Some s" for s
    using wf_canvasD(5)[OF wf, of s] that by simp
qed

lemma wf_delete_node: "wf_canvas c \<Longrightarrow> wf_canvas (delete_node c r)"
proof -
  assume wf: "wf_canvas c"
  let ?c1 = "fold (\<lambda>eid c'. delete_edge c' eid) (connections (heap c r)) c"
  have "delete_node c r =
          ?c1\<lparr>nodes := AList.delete (node_id (heap ?c1 r)) (nodes ?c1),
               app_log := app_log ?c1 @ [''Deleted node '' @ node_id (heap ?c1 r)]\<rparr>"
    by (auto simp: delete_node_def Let_def)
  then show ?thesis
    using wf_drop_node[OF wf_fold_delete_edge[OF wf]] by simp
qed

lemma wf_on_delete_key: "wf_canvas c \<Longrightarrow> wf_canvas (on_delete_key c)"
proof (cases "selected_item c")
  case None
  assume "wf_canvas c"
  with None show ?thesis by (simp add: on_delete_key_def)
next
  case (Some s)
  assume "wf_canvas c"
  then have "wf_canvas (delete_node c s)" by (rule wf_delete_node)
  then have "wf_canvas ((delete_node c s)\<lparr>selected_item := None\<rparr>)"
    by (auto simp: wf_defs split: option.splits)
  with Some show ?thesis by (simp add: on_delete_key_def)
qed


text \<open>
  The canvas with the selection left over from the diagram opened before is well formed too:
  \<open>wf_canvas\<close> does not say that the selection is a node of the diagram.
\<close>

lemma stale_delete_wf: "wf_canvas stale_delete"
  unfolding stale_delete_def
  by (intro wf_load_from wf_on_click wf_init) (simp add: ab_doc_def canvas_defs)

section \<open>Ids and end points of the canvases the handlers build\<close>

text \<open>
  In a well-formed canvas two nodes of the diagram with the same id are the same object, so
  the identity test of \<^verbatim>\<open>finish_connection\<close> is a test of ids as long as the selection is a node
  of the diagram.
\<close>

lemma finish_connection_guard:
  assumes "wf_nodes c" and "s \<in> snd ` set (nodes c)" and "find_target c items = Some t"
  shows "node_id (heap c t) = node_id (heap c s) \<longleftrightarrow> t = s"
proof
  assume eq: "node_id (heap c t) = node_id (heap c s)"
  from assms(2) obtain ks where ks: "(ks, s) \<in> set (nodes c)" by force
  from find_target_mem[OF assms(3)] obtain kt where kt: "(kt, t) \<in> set (nodes c)" by force
  from assms(1) ks kt have "node_id (heap c s) = ks" "node_id (heap c t) = kt"
    by (auto simp: wf_nodes_def list_all_iff)
  with eq have "kt = ks" by simp
  moreover have d: "distinct (map fst (nodes c))" using assms(1) by (simp add: wf_nodes_def)
  ultimately show "t = s" using ks kt eq_key_imp_eq_value[OF d, of ks t s] by simp
qed simp

text \<open>No id is empty, as long as no uuid is.\<close>

lemma ids_truthyI:
  "(\<And>k. k \<in> fst ` set (nodes c) \<Longrightarrow> k \<noteq> []) \<Longrightarrow> (\<And>k. k \<in> fst ` set (edges c) \<Longrightarrow> k \<noteq> []) \<Longrightarrow>
     ids_truthy c"
  by (auto simp: ids_truthy_def list_all_iff)

lemma ids_truthyD:
  "ids_truthy c \<Longrightarrow> k \<in> fst ` set (nodes c) \<or> k \<in> fst ` set (edges c) \<Longrightarrow> k \<noteq> []"
  by (auto simp: ids_truthy_def list_all_iff)

lemma assigned_ids_truthy:
  assumes "\<And>j. U j \<noteq> []"
  shows "i \<in> set (assigned_ids U k gs) \<Longrightarrow> i \<noteq> []"
proof (induction gs arbitrary: k)
  case Nil
  then show ?case by simp
next
  case (Cons g gs)
  show ?case
  proof (cases "truthy g")
    case True
    then obtain s where g: "g = Some s" "s \<noteq> []"
      by (auto simp: truthy_def split: option.splits)
    with Cons.prems have "i = s \<or> i \<in> set (assigned_ids U k gs)" by simp
    then show ?thesis using g(2) Cons.IH[of k] by auto
  next
    case False
    then have "assigned_ids U k (g # gs) = U k # assigned_ids U (Suc k) gs"
      by (cases g) (auto simp: truthy_def)
    with Cons.prems have "i = U k \<or> i \<in> set (assigned_ids U (Suc k) gs)" by simp
    then show ?thesis using assms[of k] Cons.IH[of "Suc k"] by auto
  qed
qed

lemma ids_truthy_init: "ids_truthy (MindMapCanvas_init uuids)"
  by (simp add: ids_truthy_def MindMapCanvas_init_def)

lemma ids_truthy_on_double:
  assumes "ids_truthy c" and "uuid_src c (uuid_calls c) \<noteq> []"
  shows "ids_truthy (on_double c ex ey)"
proof (rule ids_truthyI)
  have n: "nodes (on_double c ex ey) = AList.update (uuid_src c (uuid_calls c)) (next_ref c) (nodes c)"
    and e: "edges (on_double c ex ey) = edges c"
    by (simp_all add: on_double_def Node_init_def id_or_uuid_def uuid4_def Let_def)
  show "k \<noteq> []" if "k \<in> fst ` set (nodes (on_double c ex ey))" for k
    using that assms ids_truthyD[of c k] by (auto simp: n dom_update)
  show "k \<noteq> []" if "k \<in> fst ` set (edges (on_double c ex ey))" for k
    using that assms(1) ids_truthyD[of c k] by (simp add: e)
qed

lemma finish_connection_created:
  assumes "find_target c items = Some t" and "Some t \<noteq> selected_item c"
    and "finish_connection c items = Inr c'"
  shows "\<exists>s. selected_item c = Some s \<and> nodes c' = nodes c
           \<and> edges c' = AList.update (uuid_src c (uuid_calls c))
                \<lparr>edge_id = uuid_src c (uuid_calls c), edge_a = s, edge_b = t, edge_line = next_item c\<rparr>
                (edges c)"
  using assms
  by (cases "selected_item c")
     (auto simp: finish_connection_def Edge_init_def id_or_uuid_def uuid4_def Let_def)

lemma ids_truthy_finish_connection:
  assumes t: "ids_truthy c" and u: "uuid_src c (uuid_calls c) \<noteq> []"
    and fc: "finish_connection c items = Inr c'"
  shows "ids_truthy c'"
proof (cases "find_target c items = None \<or> find_target c items = selected_item c")
  case True
  from finish_connection_aborted[OF this] fc t show ?thesis
    by (auto simp: ids_truthy_def)
next
  case False
  then obtain tg where tg: "find_target c items = Some tg" "Some tg \<noteq> selected_item c" by auto
  from finish_connection_created[OF tg fc] obtain s where c': "nodes c' = nodes c"
    "edges c' = AList.update (uuid_src c (uuid_calls c))
                \<lparr>edge_id = uuid_src c (uuid_calls c), edge_a = s, edge_b = tg, edge_line = next_item c\<rparr>
                (edges c)"
    by blast
  show ?thesis
  proof (rule ids_truthyI)
    show "k \<noteq> []" if "k \<in> fst ` set (nodes c')" for k
      using that ids_truthyD[OF t, of k] by (simp add: c')
    show "k \<noteq> []" if "k \<in> fst ` set (edges c')" for k
    proof -
      from that have "k = uuid_src c (uuid_calls c) \<or> k \<in> fst ` set (edges c)"
        unfolding c' dom_update by blast
      then show ?thesis using u ids_truthyD[OF t, of k] by auto
    qed
  qed
qed

lemma ids_truthy_delete_node: "ids_truthy c \<Longrightarrow> ids_truthy (delete_node c r)"
proof (rule ids_truthyI)
  assume t: "ids_truthy c"
  show "k \<noteq> []" if "k \<in> fst ` set (nodes (delete_node c r))" for k
  proof -
    from that have "k \<in> fst ` set (nodes c)"
      unfolding delete_node_nodes using dom_delete_subset[of "node_id (heap c r)" "nodes c"] by blast
    then show ?thesis using ids_truthyD[OF t, of k] by auto
  qed
  show "k \<noteq> []" if "k \<in> fst ` set (edges (delete_node c r))" for k
  proof -
    from that obtain e where "(k, e) \<in> set (edges (delete_node c r))" by force
    then have "(k, e) \<in> set (edges c)" by (simp add: delete_node_edges)
    then have "k \<in> fst ` set (edges c)" by force
    then show ?thesis using ids_truthyD[OF t, of k] by auto
  qed
qed

lemma load_edge_keys:
  "fst ` set (edges (load_edge im c ed))
     \<subseteq> insert (hd (assigned_ids (uuid_src c) (uuid_calls c) [ed_id ed])) (fst ` set (edges c))"
proof (cases "resolves (map fst im) ed")
  case False
  then show ?thesis by (auto simp: load_edge_drop)
next
  case True
  then obtain a b where "lookup_id im (ed_a ed) = Some a" "lookup_id im (ed_b ed) = Some b"
    by (auto simp: lookup_id_resolves)
  from load_edge_keep[OF this] show ?thesis
    by (simp add: Let_def dom_update)
qed

lemma load_edges_keys_truthy:
  assumes U: "\<And>j. uuid_src c j \<noteq> []" and old: "\<And>k. k \<in> fst ` set (edges c) \<Longrightarrow> k \<noteq> []"
  shows "k \<in> fst ` set (edges (load_edges im eds c)) \<Longrightarrow> k \<noteq> []"
  using assms
proof (induction eds arbitrary: c)
  case Nil
  then show ?case by simp
next
  case (Cons ed eds)
  let ?c1 = "load_edge im c ed"
  let ?i = "hd (assigned_ids (uuid_src c) (uuid_calls c) [ed_id ed])"
  have U1: "\<And>j. uuid_src ?c1 j \<noteq> []"
    using Cons.prems(2) by (simp add: load_edge_frame)
  have "?i \<in> set (assigned_ids (uuid_src c) (uuid_calls c) [ed_id ed])"
    by (cases "ed_id ed") simp_all
  then have i: "?i \<noteq> []"
    by (rule assigned_ids_truthy[OF Cons.prems(2)])
  have old1: "k' \<noteq> []" if "k' \<in> fst ` set (edges ?c1)" for k'
  proof -
    from that load_edge_keys[of im c ed] have "k' = ?i \<or> k' \<in> fst ` set (edges c)" by auto
    then show ?thesis using i Cons.prems(3)[of k'] by auto
  qed
  have "k \<in> fst ` set (edges (load_edges im eds ?c1))"
    using Cons.prems(1) by simp
  then show ?case
    by (rule Cons.IH[of ?c1, OF _ U1 old1])
qed

lemma ids_truthy_load_from:
  assumes U: "\<And>j. uuid_src c j \<noteq> []"
  shows "ids_truthy (load_from c data)"
proof (rule ids_truthyI)
  obtain c1 im where ln: "load_nodes (default [] (doc_nodes data)) (clear c, []) = (c1, im)"
    by force
  have lf: "load_from c data = load_edges im (default [] (doc_edges data)) c1"
    by (simp add: load_from_def ln)
  have cl: "uuid_src (clear c) = uuid_src c" "nodes (clear c) = []" "edges (clear c) = []"
    by (simp_all add: clear_def)
  have fr: "uuid_src c1 = uuid_src c" "edges c1 = []"
    using load_nodes_frame[OF ln] by (simp_all add: cl)
  show "k \<noteq> []" if "k \<in> fst ` set (nodes (load_from c data))" for k
  proof -
    from that have "k \<in> fst ` set (nodes c1)" by (simp add: lf load_edges_frame)
    then have "k \<in> set (assigned_ids (uuid_src c) (uuid_calls (clear c))
                      (map nd_id (default [] (doc_nodes data))))"
      using load_nodes_keys[OF ln] by (simp add: cl)
    then show ?thesis by (rule assigned_ids_truthy[OF U])
  qed
  show "k \<noteq> []" if "k \<in> fst ` set (edges (load_from c data))" for k
  proof (rule load_edges_keys_truthy[where c = c1 and im = im and eds = "default [] (doc_edges data)"])
    show "uuid_src c1 j \<noteq> []" for j using U by (simp add: fr)
    show "k' \<noteq> []" if "k' \<in> fst ` set (edges c1)" for k' using that by (simp add: fr)
    show "k \<in> fst ` set (edges (load_edges im (default [] (doc_edges data)) c1))"
      using that by (simp add: lf)
  qed
qed

text \<open>
  The end points of the edges of a loaded diagram are nodes of that diagram; clicking keeps
  this when the selection is a node of the diagram, and deleting a node keeps it.
\<close>

lemma endpoints_presentI:
  "(\<And>k e. (k, e) \<in> set (edges c) \<Longrightarrow> edge_a e \<in> snd ` set (nodes c) \<and> edge_b e \<in> snd ` set (nodes c))
     \<Longrightarrow> endpoints_present c"
  by (auto simp: endpoints_present_def list_all_iff)

lemma endpoints_presentD:
  "endpoints_present c \<Longrightarrow> (k, e) \<in> set (edges c) \<Longrightarrow>
     edge_a e \<in> snd ` set (nodes c) \<and> edge_b e \<in> snd ` set (nodes c)"
  by (auto simp: endpoints_present_def list_all_iff)

lemma endpoints_present_resolvable:
  assumes "wf_nodes c" and "endpoints_present c"
  shows "resolvable c"
proof -
  have "node_id (heap c r) \<in> fst ` set (nodes c)" if "r \<in> snd ` set (nodes c)" for r
  proof -
    from that obtain k where k: "(k, r) \<in> set (nodes c)" by force
    with assms(1) have "node_id (heap c r) = k" by (auto simp: wf_nodes_def list_all_iff)
    with k show ?thesis by force
  qed
  then have "node_id (heap c (edge_a e)) \<in> fst ` set (nodes c)
           \<and> node_id (heap c (edge_b e)) \<in> fst ` set (nodes c)" if "(k, e) \<in> set (edges c)" for k e
    using endpoints_presentD[OF assms(2) that] by blast
  then show ?thesis
    unfolding resolvable_def list_all_iff by blast
qed

lemma endpoints_present_load_edge:
  assumes ep: "endpoints_present c" and im: "set im \<subseteq> set (nodes c)"
  shows "endpoints_present (load_edge im c ed)"
proof (cases "resolves (map fst im) ed")
  case False
  then show ?thesis using ep by (simp add: load_edge_drop)
next
  case True
  then obtain a b where ab: "lookup_id im (ed_a ed) = Some a" "lookup_id im (ed_b ed) = Some b"
    by (auto simp: lookup_id_resolves)
  then have a: "a \<in> snd ` set (nodes c)" and b: "b \<in> snd ` set (nodes c)"
    using im by (force dest: lookup_id_SomeD)+
  let ?i = "hd (assigned_ids (uuid_src c) (uuid_calls c) [ed_id ed])"
  let ?e = "\<lparr>edge_id = ?i, edge_a = a, edge_b = b, edge_line = next_item c\<rparr>"
  have e': "edges (load_edge im c ed) = AList.update ?i ?e (edges c)"
    by (simp add: load_edge_keep[OF ab] Let_def)
  show ?thesis
  proof (rule endpoints_presentI)
    fix k e assume "(k, e) \<in> set (edges (load_edge im c ed))"
    then have "(k, e) = (?i, ?e) \<or> (k, e) \<in> set (edges c)"
      using set_update_subset[of ?i ?e "edges c"] by (auto simp: e')
    then show "edge_a e \<in> snd ` set (nodes (load_edge im c ed))
             \<and> edge_b e \<in> snd ` set (nodes (load_edge im c ed))"
    proof
      assume "(k, e) = (?i, ?e)"
      then show ?thesis using a b by (simp add: load_edge_frame)
    next
      assume "(k, e) \<in> set (edges c)"
      from endpoints_presentD[OF ep this] show ?thesis by (simp add: load_edge_frame)
    qed
  qed
qed

lemma endpoints_present_load_edges:
  "endpoints_present c \<Longrightarrow> set im \<subseteq> set (nodes c) \<Longrightarrow> endpoints_present (load_edges im eds c)"
  by (induction eds arbitrary: c) (simp_all add: endpoints_present_load_edge load_edge_frame)

lemma load_nodes_id_map:
  "im = nodes c \<Longrightarrow> snd (load_nodes nds (c, im)) = nodes (fst (load_nodes nds (c, im)))"
proof (induction nds arbitrary: c im)
  case Nil
  then show ?case by simp
next
  case (Cons nd nds)
  obtain c1 im1 where s: "load_node (c, im) nd = (c1, im1)" by force
  then have "im1 = nodes c1" using load_node_id_map[of c nd] Cons.prems by simp
  from Cons.IH[OF this] s show ?case by simp
qed

lemma endpoints_present_load_from: "endpoints_present (load_from c data)"
proof -
  obtain c1 im where ln: "load_nodes (default [] (doc_nodes data)) (clear c, []) = (c1, im)"
    by force
  have "edges c1 = []"
    using load_nodes_frame[OF ln] by (simp add: clear_def)
  then have ep: "endpoints_present c1" by (simp add: endpoints_present_def)
  have "[] = nodes (clear c)" by (simp add: clear_def)
  from load_nodes_id_map[OF this, of "default [] (doc_nodes data)"]
  have "im = nodes c1" by (simp add: ln)
  then show ?thesis
    using endpoints_present_load_edges[OF ep, of im] by (simp add: load_from_def ln)
qed

lemma endpoints_present_finish_connection:
  assumes ep: "endpoints_present c" and sel: "set_option (selected_item c) \<subseteq> snd ` set (nodes c)"
    and fc: "finish_connection c items = Inr c'"
  shows "endpoints_present c'"
proof (cases "find_target c items = None \<or> find_target c items = selected_item c")
  case True
  from finish_connection_aborted[OF this] fc ep show ?thesis
    by (auto simp: endpoints_present_def)
next
  case False
  then obtain t where t: "find_target c items = Some t" "Some t \<noteq> selected_item c" by auto
  let ?i = "uuid_src c (uuid_calls c)"
  from finish_connection_created[OF t fc] obtain s where s: "selected_item c = Some s"
    and c': "nodes c' = nodes c"
      "edges c' = AList.update ?i \<lparr>edge_id = ?i, edge_a = s, edge_b = t, edge_line = next_item c\<rparr> (edges c)"
    by blast
  let ?e = "\<lparr>edge_id = ?i, edge_a = s, edge_b = t, edge_line = next_item c\<rparr>"
  have st: "s \<in> snd ` set (nodes c)" "t \<in> snd ` set (nodes c)"
    using sel s find_target_mem[OF t(1)] by auto
  show ?thesis
  proof (rule endpoints_presentI)
    fix k e assume "(k, e) \<in> set (edges c')"
    then have "(k, e) = (?i, ?e) \<or> (k, e) \<in> set (edges c)"
      using set_update_subset[of ?i ?e "edges c"] unfolding c' by blast
    then show "edge_a e \<in> snd ` set (nodes c') \<and> edge_b e \<in> snd ` set (nodes c')"
    proof
      assume "(k, e) = (?i, ?e)"
      then show ?thesis using st by (simp add: c')
    next
      assume "(k, e) \<in> set (edges c)"
      from endpoints_presentD[OF ep this] show ?thesis by (simp add: c')
    qed
  qed
qed

lemma endpoints_present_delete_node:
  assumes wn: "wf_nodes c" and we: "wf_edges c" and ep: "endpoints_present c"
    and present: "r \<in> snd ` set (nodes c)"
  shows "endpoints_present (delete_node c r)"
proof (rule endpoints_presentI)
  fix k e assume m: "(k, e) \<in> set (edges (delete_node c r))"
  then have old: "(k, e) \<in> set (edges c)" and out: "k \<notin> set (connections (heap c r))"
    by (auto simp: delete_node_edges)
  from we old out have ne: "edge_a e \<noteq> r" "edge_b e \<noteq> r"
    by (auto simp: wf_edges_def list_all_iff)
  from present obtain kr where kr: "(kr, r) \<in> set (nodes c)" by force
  with wn have idr: "node_id (heap c r) = kr" by (auto simp: wf_nodes_def list_all_iff)
  have d: "distinct (map fst (nodes c))" using wn by (simp add: wf_nodes_def)
  have keep: "x \<in> snd ` set (nodes (delete_node c r))" if "x \<in> snd ` set (nodes c)" "x \<noteq> r" for x
  proof -
    from that obtain kx where kx: "(kx, x) \<in> set (nodes c)" by force
    have "kx \<noteq> kr"
    proof
      assume "kx = kr"
      with kx kr eq_key_imp_eq_value[OF d, of kr x r] have "x = r" by simp
      with that(2) show False by simp
    qed
    with kx show ?thesis by (force simp: delete_node_nodes idr AList.delete_eq)
  qed
  from endpoints_presentD[OF ep old] ne keep
  show "edge_a e \<in> snd ` set (nodes (delete_node c r)) \<and> edge_b e \<in> snd ` set (nodes (delete_node c r))"
    by blast
qed

text \<open>
  So a diagram that \<^verbatim>\<open>load_from\<close> has built meets every condition of the round trip above.
\<close>

lemma load_from_well_formed:
  assumes "wf_canvas c" and "\<And>j. uuid_src c j \<noteq> []"
  shows "wf_nodes (load_from c data) \<and> wf_edges (load_from c data)
       \<and> ids_truthy (load_from c data) \<and> resolvable (load_from c data)"
proof -
  have wf: "wf_canvas (load_from c data)" using assms(1) by (rule wf_load_from)
  then have "wf_nodes (load_from c data)" "wf_edges (load_from c data)"
    by (simp_all add: wf_canvas_def)
  moreover have "ids_truthy (load_from c data)" using assms(2) by (rule ids_truthy_load_from)
  moreover have "resolvable (load_from c data)"
    using \<open>wf_nodes (load_from c data)\<close> endpoints_present_load_from
    by (rule endpoints_present_resolvable)
  ultimately show ?thesis by simp
qed


section \<open>Documents with unresolved end points\<close>








end
